theory Spec2Isabelle
  imports Complex_Main
begin

section \<open>Data model\<close>

text \<open>
  The notebook works on dense numpy arrays of floats, as \<open>np.loadtxt\<close> reads them. A
  two-dimensional array is a list of rows, a one-dimensional array a list, and every
  float is an exact real number:
  rounding, overflow and the values \<open>inf\<close> and \<open>nan\<close> are outside the model.
  Where numpy would produce \<open>nan\<close> or \<open>inf\<close> (the logarithm of a number that is not
  positive, a division by zero) HOL computes some real number instead, so the theorems
  below carry the hypotheses that keep the source away from those values.

  A rating matrix \<open>X\<close> has shape \<open>(n, d)\<close>; a cell equal to zero is unobserved.
\<close>

record GaussianMixture =
  mu :: "real list list"
  var :: "real list"
  p :: "real list"

text \<open>\<open>A.shape[0]\<close> and \<open>A.shape[1]\<close> of a two-dimensional array.\<close>

definition shape0 :: "'a list list \<Rightarrow> nat" where
  "shape0 A = length A"

definition shape1 :: "'a list list \<Rightarrow> nat" where
  "shape1 A = (case A of [] \<Rightarrow> 0 | r # _ \<Rightarrow> length r)"

text \<open>
  The arrays have the shapes the source documents: \<open>X\<close> is \<open>(n, d)\<close>, \<open>mu\<close> is
  \<open>(K, d)\<close>, \<open>var\<close> and \<open>p\<close> are \<open>(K,)\<close>, with at least one example and one
  component. On other shapes numpy broadcasts or raises; neither is modelled.
\<close>

definition is_matrix :: "nat \<Rightarrow> nat \<Rightarrow> 'a list list \<Rightarrow> bool" where
  "is_matrix n d A = (length A = n \<and> list_all (\<lambda>r. length r = d) A)"

definition shapes_ok :: "real list list \<Rightarrow> GaussianMixture \<Rightarrow> bool" where
  "shapes_ok X mixture =
     (0 < shape0 X \<and> 0 < shape0 (mu mixture) \<and>
      is_matrix (shape0 X) (shape1 X) X \<and>
      is_matrix (shape0 (mu mixture)) (shape1 X) (mu mixture) \<and>
      length (var mixture) = shape0 (mu mixture) \<and>
      length (p mixture) = shape0 (mu mixture))"

text \<open>
  The E-step takes \<open>np.log(mixture.var)\<close>, divides by \<open>mixture.var\<close> and takes
  \<open>np.log(mixture.p + 1e-16)\<close>: all three are finite exactly when the variances and the
  smoothed weights are positive.
\<close>

definition logs_finite :: "GaussianMixture \<Rightarrow> bool" where
  "logs_finite mixture =
     (list_all (\<lambda>v. 0 < v) (var mixture) \<and> list_all (\<lambda>w. 0 < w + 1 / 10 ^ 16) (p mixture))"

section \<open>E-step\<close>

text \<open>\<open>non_null = (X != 0).astype(int)\<close> and \<open>rated = np.sum(non_null, axis=1)\<close>.\<close>

definition non_null :: "real list list \<Rightarrow> int list list" where
  "non_null X = map (map (\<lambda>x. if x \<noteq> 0 then 1 else 0)) X"

definition rated :: "real list list \<Rightarrow> int list" where
  "rated X = map sum_list (non_null X)"

text \<open>
  \<open>norm = np.sum((X[:, None, :] - non_null[:, None, :] * mixture.mu) ** 2, axis=2)\<close>,
  an \<open>(n, K)\<close> array.
\<close>

definition estep_norm :: "real list list \<Rightarrow> GaussianMixture \<Rightarrow> real list list" where
  "estep_norm X mixture =
     map (\<lambda>i. map (\<lambda>k. \<Sum>j\<leftarrow>[0..<shape1 X].
                  (X ! i ! j - of_int (non_null X ! i ! j) * (mu mixture ! k ! j)) ^ 2)
              [0..<shape0 (mu mixture)])
       [0..<shape0 X]"

text \<open>
  The array \<open>f\<close> after its second assignment:
  \<open>norm2 = -norm / (mixture.var[None, :] * 2)\<close>,
  \<open>f = norm2 - (rated[:, None] / 2.0) * (np.log(2 * np.pi) + np.log(mixture.var[None, :]))\<close>,
  \<open>f = f + np.log(mixture.p[None, :] + 1e-16)\<close>.
\<close>

definition estep_f :: "real list list \<Rightarrow> GaussianMixture \<Rightarrow> real list list" where
  "estep_f X mixture =
     map (\<lambda>i. map (\<lambda>k.
              - (estep_norm X mixture ! i ! k) / (var mixture ! k * 2)
              - (of_int (rated X ! i) / 2) * (ln (2 * pi) + ln (var mixture ! k))
              + ln (p mixture ! k + 1 / 10 ^ 16))
              [0..<shape0 (mu mixture)])
       [0..<shape0 X]"

text \<open>
  \<open>scipy.special.logsumexp\<close> along one row: the maximum is subtracted before the
  exponentials are taken and added back after the logarithm.
\<close>

definition logsumexp :: "real list \<Rightarrow> real" where
  "logsumexp a = (let a_max = Max (set a) in ln (\<Sum>x\<leftarrow>a. exp (x - a_max)) + a_max)"

text \<open>\<open>log_post = f - logsumexp(f, axis=1, keepdims=True)\<close>.\<close>

definition log_post_of :: "real list list \<Rightarrow> real list list" where
  "log_post_of f = map (\<lambda>row. map (\<lambda>x. x - logsumexp row) row) f"

text \<open>
  \<open>estep\<close> returns \<open>post = np.exp(log_post)\<close> and
  \<open>log_likelihood = np.sum(post * (f - log_post))\<close>, the sum of all cells. The value
  \<open>f_max\<close> the source computes is never used.
\<close>

definition estep :: "real list list \<Rightarrow> GaussianMixture \<Rightarrow> real list list \<times> real" where
  "estep X mixture =
     (let f = estep_f X mixture;
          log_post = log_post_of f;
          post = map (map exp) log_post;
          log_likelihood =
            (\<Sum>i\<leftarrow>[0..<shape0 X]. \<Sum>k\<leftarrow>[0..<shape0 (mu mixture)].
               post ! i ! k * (f ! i ! k - log_post ! i ! k))
      in (post, log_likelihood))"

section \<open>M-step\<close>

text \<open>\<open>X2 = np.copy(X); X2[X2 != 0] = 1\<close>: the observation mask, as floats.\<close>

definition X2_of :: "real list list \<Rightarrow> real list list" where
  "X2_of X = map (map (\<lambda>x. if x \<noteq> 0 then 1 else x)) X"

text \<open>
  The two sums of the mean update for component \<open>k\<close> and dimension \<open>i\<close>:
  \<open>np.multiply(X2[:, i].T, np.matrix(post[:, k])).T.sum(axis=0)\<close> and the same with
  \<open>X\<close> in place of \<open>X2\<close>.
\<close>

definition mu_den :: "real list list \<Rightarrow> real list list \<Rightarrow> nat \<Rightarrow> nat \<Rightarrow> real" where
  "mu_den X post k i = (\<Sum>r\<leftarrow>[0..<shape0 X]. X2_of X ! r ! i * post ! r ! k)"

definition mu_num :: "real list list \<Rightarrow> real list list \<Rightarrow> nat \<Rightarrow> nat \<Rightarrow> real" where
  "mu_num X post k i = (\<Sum>r\<leftarrow>[0..<shape0 X]. X ! r ! i * post ! r ! k)"

definition mstep_mu :: "real list list \<Rightarrow> real list list \<Rightarrow> GaussianMixture \<Rightarrow> real list list" where
  "mstep_mu X post mixture =
     map (\<lambda>k. map (\<lambda>i. if mu_den X post k i \<ge> 1
                        then mu_num X post k i / mu_den X post k i
                        else mu mixture ! k ! i)
              [0..<shape1 X])
       [0..<shape1 post]"

text \<open>\<open>p = post.sum(axis=0) / post.shape[0]\<close>.\<close>

definition mstep_p :: "real list list \<Rightarrow> real list" where
  "mstep_p post =
     map (\<lambda>k. (\<Sum>r\<leftarrow>[0..<shape0 post]. post ! r ! k) / real (shape0 post)) [0..<shape1 post]"

text \<open>
  Numerator and denominator of \<open>pv\<close>:
  \<open>(post[:, k] * np.power((X-mu_h[k])*X2, 2).sum(axis=1)).sum(axis=0)\<close> and
  \<open>((np.matrix(post[:, k]) * X2).sum(axis=1)).sum(axis=0)\<close>, where the product of the
  two matrices is the matrix product, a \<open>(1, d)\<close> row.
\<close>

definition var_num :: "real list list \<Rightarrow> real list list \<Rightarrow> real list list \<Rightarrow> nat \<Rightarrow> real" where
  "var_num X post mu_h k =
     (\<Sum>r\<leftarrow>[0..<shape0 X]. post ! r ! k *
        (\<Sum>j\<leftarrow>[0..<shape1 X]. ((X ! r ! j - mu_h ! k ! j) * X2_of X ! r ! j) ^ 2))"

definition var_den :: "real list list \<Rightarrow> real list list \<Rightarrow> nat \<Rightarrow> real" where
  "var_den X post k =
     (\<Sum>j\<leftarrow>[0..<shape1 X]. \<Sum>r\<leftarrow>[0..<shape0 X]. post ! r ! k * X2_of X ! r ! j)"

text \<open>
  \<open>var_h[k] = pv if pv >= min_variance else min_variance\<close>. When the denominator is
  zero numpy's quotient is \<open>nan\<close> for a zero numerator, and the comparison is false: the
  floor is taken. (A non-zero numerator over a zero denominator needs a negative
  responsibility; numpy then gives an infinite \<open>pv\<close>, which no real number stands for.)
\<close>

definition mstep_var ::
  "real list list \<Rightarrow> real list list \<Rightarrow> real list list \<Rightarrow> real \<Rightarrow> real list" where
  "mstep_var X post mu_h min_variance =
     map (\<lambda>k. if var_den X post k = 0 then min_variance
               else let pv = var_num X post mu_h k / var_den X post k
                    in if pv \<ge> min_variance then pv else min_variance)
       [0..<shape1 post]"

definition mstep ::
  "real list list \<Rightarrow> real list list \<Rightarrow> GaussianMixture \<Rightarrow> real \<Rightarrow> GaussianMixture" where
  "mstep X post mixture min_variance =
     (let mu_h = mstep_mu X post mixture;
          p_h = mstep_p post;
          var_h = mstep_var X post mu_h min_variance
      in \<lparr>mu = mu_h, var = var_h, p = p_h\<rparr>)"

section \<open>Convergence loop\<close>

text \<open>
  The body of \<open>while True\<close> in \<open>run\<close>, with the loop's variables as arguments:
  the mixture, the global \<open>prev_cost\<close> as it stands when the test is reached (the cost
  of the iteration before, once \<open>i > 0\<close>) and the counter \<open>i\<close>. The loop has no bound, so
  not returning is the value \<open>None\<close>. The counter at the \<open>break\<close> is returned with the
  result; \<open>run\<close> drops it. \<open>mstep\<close> is called with its default floor \<open>.25\<close>.
\<close>

partial_function (option) run_loop ::
  "real list list \<Rightarrow> GaussianMixture \<Rightarrow> real \<Rightarrow> nat
     \<Rightarrow> (GaussianMixture \<times> real list list \<times> real \<times> nat) option" where
  "run_loop X mixture prev_cost i =
     (case estep X mixture of (post, cost) \<Rightarrow>
        let mixture' = mstep X post mixture (1 / 4) in
        if i > 0 \<and> cost - prev_cost \<le> (1 / 10 ^ 6) * \<bar>cost\<bar>
        then Some (mixture', post, cost, i)
        else run_loop X mixture' cost (i + 1))"

text \<open>
  \<open>run(X, mixture, post)\<close>: the argument \<open>post\<close> is overwritten before it is read. The
  first argument is the value the global \<open>prev_cost\<close> holds on entry.
\<close>

definition run ::
  "real \<Rightarrow> real list list \<Rightarrow> GaussianMixture \<Rightarrow> real list list
     \<Rightarrow> (GaussianMixture \<times> real list list \<times> real) option" where
  "run prev_cost X mixture post =
     map_option (\<lambda>(m, q, c, i). (m, q, c)) (run_loop X mixture prev_cost 0)"

text \<open>
  The iterations of the loop, numbered from zero as the counter \<open>i\<close> numbers them:
  the mixture that enters iteration \<open>n\<close>, the cost its E-step returns, the value
  \<open>prev_cost\<close> holds when the test of iteration \<open>n\<close> is reached, and the test
  itself, which is only made when \<open>i > 0\<close>.
\<close>

fun mixture_at :: "real list list \<Rightarrow> GaussianMixture \<Rightarrow> nat \<Rightarrow> GaussianMixture" where
  "mixture_at X mixture 0 = mixture"
| "mixture_at X mixture (Suc n) =
     mstep X (fst (estep X (mixture_at X mixture n))) (mixture_at X mixture n) (1 / 4)"

definition cost_at :: "real list list \<Rightarrow> GaussianMixture \<Rightarrow> nat \<Rightarrow> real" where
  "cost_at X mixture n = snd (estep X (mixture_at X mixture n))"

definition prev_cost_at :: "real \<Rightarrow> real list list \<Rightarrow> GaussianMixture \<Rightarrow> nat \<Rightarrow> real" where
  "prev_cost_at c X mixture n = (if n = 0 then c else cost_at X mixture (n - 1))"

definition converged_at :: "real list list \<Rightarrow> GaussianMixture \<Rightarrow> nat \<Rightarrow> bool" where
  "converged_at X mixture n =
     (0 < n \<and> cost_at X mixture n - cost_at X mixture (n - 1) \<le> (1 / 10 ^ 6) * \<bar>cost_at X mixture n\<bar>)"

section \<open>Imputation\<close>

text \<open>\<open>a, b = np.where(X == 0)\<close>, zipped: the zero cells in row-major order.\<close>

definition where_zero :: "real list list \<Rightarrow> (nat \<times> nat) list" where
  "where_zero X =
     concat (map (\<lambda>i. map (\<lambda>j. (i, j)) (filter (\<lambda>j. X ! i ! j = 0) [0..<shape1 X]))
               [0..<shape0 X])"

text \<open>\<open>output[i] = v\<close> for an index pair \<open>i\<close>.\<close>

definition set_cell :: "real list list \<Rightarrow> nat \<times> nat \<Rightarrow> real \<Rightarrow> real list list" where
  "set_cell A ij v = A[fst ij := (A ! fst ij)[snd ij := v]]"

text \<open>
  \<open>fill_matrix\<close> repeats the lines of \<open>estep\<close> that compute \<open>post\<close>, then overwrites
  the zero cells of a copy of \<open>X\<close>.
\<close>

definition fill_matrix :: "real list list \<Rightarrow> GaussianMixture \<Rightarrow> real list list" where
  "fill_matrix X mixture =
     (let output = X;
          f = estep_f X mixture;
          log_post = log_post_of f;
          post = map (map exp) log_post
      in fold (\<lambda>i out. set_cell out i
                 (\<Sum>k\<leftarrow>[0..<shape0 (mu mixture)]. post ! fst i ! k * (mu mixture ! k ! snd i)))
           (where_zero X) output)"

text \<open>
  The same function on a store, to tell the array it is given from the array it returns.
  A store is the list of the arrays allocated so far and an address is an index into it;
  \<open>np.copy\<close> allocates a new array. \<open>fill_matrix\<close> reads \<open>X\<close> and writes
  \<open>output\<close> only.
\<close>

type_synonym heap = "real list list list"

definition np_copy :: "heap \<Rightarrow> nat \<Rightarrow> heap \<times> nat" where
  "np_copy h a = (h @ [h ! a], length h)"

definition fill_matrix_heap :: "heap \<Rightarrow> nat \<Rightarrow> GaussianMixture \<Rightarrow> heap \<times> nat" where
  "fill_matrix_heap h x mixture =
     (case np_copy h x of (h1, output) \<Rightarrow>
        let X = h1 ! x;
            f = estep_f X mixture;
            log_post = log_post_of f;
            post = map (map exp) log_post
        in (fold (\<lambda>i h'. h'[output := set_cell (h' ! output) i
                     (\<Sum>k\<leftarrow>[0..<shape0 (mu mixture)]. post ! fst i ! k * (mu mixture ! k ! snd i))])
              (where_zero X) h1, output))"

section \<open>The specification's formulas\<close>

text \<open>
  The E-step as the specification words it: the squared distance runs over the observed
  dimensions of row \<open>i\<close> only, and \<open>r_i\<close> is their number.
\<close>

definition observed_dims :: "real list list \<Rightarrow> nat \<Rightarrow> nat list" where
  "observed_dims X i = filter (\<lambda>j. X ! i ! j \<noteq> 0) [0..<shape1 X]"

definition dist_spec :: "real list list \<Rightarrow> GaussianMixture \<Rightarrow> nat \<Rightarrow> nat \<Rightarrow> real" where
  "dist_spec X mixture i k = (\<Sum>j\<leftarrow>observed_dims X i. (X ! i ! j - mu mixture ! k ! j) ^ 2)"

definition f_spec :: "real list list \<Rightarrow> GaussianMixture \<Rightarrow> nat \<Rightarrow> nat \<Rightarrow> real" where
  "f_spec X mixture i k =
     - dist_spec X mixture i k / (2 * var mixture ! k)
     - (real (length (observed_dims X i)) / 2) * (ln (2 * pi) + ln (var mixture ! k))
     + ln (p mixture ! k + 1 / 10 ^ 16)"

text \<open>The observation mask of the specification: one on an observed cell, zero elsewhere.\<close>

definition observed :: "real list list \<Rightarrow> nat \<Rightarrow> nat \<Rightarrow> real" where
  "observed X i j = (if X ! i ! j \<noteq> 0 then 1 else 0)"

text \<open>The mixing weight of component \<open>k\<close>, smoothed by \<open>1e-16\<close> and normalized.\<close>

definition smoothed_weight :: "GaussianMixture \<Rightarrow> nat \<Rightarrow> real" where
  "smoothed_weight mixture k =
     (p mixture ! k + 1 / 10 ^ 16) / (\<Sum>w\<leftarrow>p mixture. w + 1 / 10 ^ 16)"

text \<open>
  The two sums over the examples that the variance update of component \<open>k\<close> divides:
  the responsibility-weighted squared distance to a mixture's mean, and the
  responsibility-weighted number of observed dimensions.
\<close>

definition weighted_dist ::
  "real list list \<Rightarrow> real list list \<Rightarrow> GaussianMixture \<Rightarrow> nat \<Rightarrow> real" where
  "weighted_dist X post mixture k = (\<Sum>i<shape0 X. post ! i ! k * dist_spec X mixture i k)"

definition weighted_count :: "real list list \<Rightarrow> real list list \<Rightarrow> nat \<Rightarrow> real" where
  "weighted_count X post k = (\<Sum>i<shape0 X. post ! i ! k * real (length (observed_dims X i)))"

text \<open>
  What the M-step with the default floor establishes, and the loop then keeps: no variance
  below \<open>.25\<close>, and weights that sum to at most one.
\<close>

definition floor_ok :: "GaussianMixture \<Rightarrow> bool" where
  "floor_ok mixture = (list_all (\<lambda>v. 1 / 4 \<le> v) (var mixture) \<and> sum_list (p mixture) \<le> 1)"

text \<open>
  The M-step is given a responsibility matrix of shape \<open>(n, K)\<close> next to the rating
  matrix and the previous mixture.
\<close>

definition mstep_shapes_ok :: "real list list \<Rightarrow> real list list \<Rightarrow> GaussianMixture \<Rightarrow> bool" where
  "mstep_shapes_ok X post mixture =
     (shapes_ok X mixture \<and> is_matrix (shape0 X) (shape0 (mu mixture)) post)"

section \<open>Example inputs\<close>

text \<open>
  The rating matrix of the end-to-end scenario, three users and three items, with a
  mixture of two components whose means are its first two rows.
\<close>

definition X_demo :: "real list list" where
  "X_demo = [[1, 0, 3], [0, 2, 3], [1, 2, 0]]"

definition mixture_demo :: GaussianMixture where
  "mixture_demo = \<lparr>mu = [[1, 0, 3], [0, 2, 3]], var = [1, 1], p = [1 / 2, 1 / 2]\<rparr>"

text \<open>A responsibility matrix for it: three rows that each sum to one.\<close>

definition post_demo :: "real list list" where
  "post_demo = [[1 / 2, 1 / 2], [1 / 4, 3 / 4], [1, 0]]"

text \<open>A second rating matrix, whose first user has rated nothing.\<close>

definition X_blank :: "real list list" where
  "X_blank = [[0, 0], [1, 2]]"

definition mixture_blank :: GaussianMixture where
  "mixture_blank = \<lparr>mu = [[1, 2], [3, 4]], var = [1, 1], p = [1 / 2, 1 / 2]\<rparr>"

text \<open>
  One user, one item, one component whose mean is the rating and whose variance is the
  floor: the M-step gives this mixture back.
\<close>

definition X_fix :: "real list list" where
  "X_fix = [[1]]"

definition mixture_fix :: GaussianMixture where
  "mixture_fix = \<lparr>mu = [[1]], var = [1 / 4], p = [1]\<rparr>"

text \<open>The same user and item with a starting variance below the floor.\<close>

definition mixture_low :: GaussianMixture where
  "mixture_low = \<lparr>mu = [[1]], var = [1 / 400], p = [1]\<rparr>"

lemma shapes_ok_demo: "shapes_ok X_demo mixture_demo"
  by (simp add: shapes_ok_def is_matrix_def shape0_def shape1_def X_demo_def mixture_demo_def)

lemma logs_finite_demo: "logs_finite mixture_demo"
  by (simp add: logs_finite_def mixture_demo_def)

section \<open>Properties of the E-step\<close>


lemma sum_list_exp_nonneg: "0 \<le> (\<Sum>x\<leftarrow>a. exp (x::real))"
  by (induction a) simp_all

lemma sum_list_exp_pos: "a \<noteq> [] \<Longrightarrow> 0 < (\<Sum>x\<leftarrow>a. exp (x::real))"
  by (cases a) (simp_all add: add_pos_nonneg sum_list_exp_nonneg)

lemma sum_list_exp_shift: "(\<Sum>x\<leftarrow>a. exp (x - c)) = exp (- c) * (\<Sum>x\<leftarrow>a. exp (x::real))"
  by (induction a) (simp_all add: exp_diff exp_minus field_simps)

lemma logsumexp_eq: "a \<noteq> [] \<Longrightarrow> logsumexp a = ln (\<Sum>x\<leftarrow>a. exp x)"
  using sum_list_exp_pos [of a]
  by (simp add: logsumexp_def Let_def sum_list_exp_shift ln_mult)

lemma exp_logsumexp: "a \<noteq> [] \<Longrightarrow> exp (logsumexp a) = (\<Sum>x\<leftarrow>a. exp x)"
  using sum_list_exp_pos [of a] by (simp add: logsumexp_eq)

lemma softmax_sum: "a \<noteq> [] \<Longrightarrow> (\<Sum>x\<leftarrow>a. exp (x - logsumexp a)) = 1"
  using sum_list_exp_pos [of a]
  by (simp add: sum_list_exp_shift exp_minus exp_logsumexp)

lemma length_estep_f [simp]: "length (estep_f X mixture) = shape0 X"
  by (simp add: estep_f_def)

lemma length_estep_f_row [simp]:
  "i < shape0 X \<Longrightarrow> length (estep_f X mixture ! i) = shape0 (mu mixture)"
  by (simp add: estep_f_def)

lemma fst_estep: "fst (estep X mixture) = map (map exp) (log_post_of (estep_f X mixture))"
  by (simp add: estep_def Let_def)

lemma post_row:
  "i < shape0 X \<Longrightarrow>
   fst (estep X mixture) ! i =
     map (\<lambda>x. exp (x - logsumexp (estep_f X mixture ! i))) (estep_f X mixture ! i)"
  by (simp add: fst_estep log_post_of_def)

lemma estep_f_row_ne:
  assumes "shapes_ok X mixture" and "i < shape0 X"
  shows "estep_f X mixture ! i \<noteq> []"
  using assms by (auto simp: shapes_ok_def simp flip: length_greater_0_conv)

lemma post_row_sum:
  assumes sh: "shapes_ok X mixture" and i: "i < shape0 X"
  shows "sum_list (fst (estep X mixture) ! i) = 1"
  using i softmax_sum [OF estep_f_row_ne [OF sh i]] by (simp add: post_row comp_def)

text \<open>
  C4. Every row of the responsibility matrix the E-step returns sums to one, for every
  well-shaped rating matrix and every mixture with positive variances and positive
  smoothed weights. Over the reals the sum is exactly one.
\<close>

theorem estep_rows_sum_to_one:
  assumes "shapes_ok X mixture" and "logs_finite mixture" and "i < shape0 X"
  shows "sum_list (fst (estep X mixture) ! i) = 1"
  using assms(1,3) by (rule post_row_sum)

theorem estep_rows_sum_to_one_witness:
  "shapes_ok X_demo mixture_demo \<and> logs_finite mixture_demo \<and> 0 < shape0 X_demo
   \<and> sum_list (fst (estep X_demo mixture_demo) ! 0) = 1"
proof -
  have "0 < shape0 X_demo" by (simp add: shape0_def X_demo_def)
  then show ?thesis
    using estep_rows_sum_to_one [OF shapes_ok_demo logs_finite_demo, of 0]
      shapes_ok_demo logs_finite_demo
    by blast
qed

lemma sum_list_nth_upt: "(\<Sum>k\<leftarrow>[0..<length xs]. f (xs ! k)) = (\<Sum>x\<leftarrow>xs. f x)"
proof -
  have "map (\<lambda>k. f (xs ! k)) [0..<length xs] = map f (map (\<lambda>k. xs ! k) [0..<length xs])"
    by simp
  then show ?thesis by (simp only: map_nth)
qed

lemma estep_row_likelihood:
  assumes "a \<noteq> []"
  shows "(\<Sum>k\<leftarrow>[0..<length a].
            map exp (map (\<lambda>x. x - logsumexp a) a) ! k * (a ! k - map (\<lambda>x. x - logsumexp a) a ! k))
         = logsumexp a"
proof -
  have "(\<Sum>k\<leftarrow>[0..<length a].
            map exp (map (\<lambda>x. x - logsumexp a) a) ! k * (a ! k - map (\<lambda>x. x - logsumexp a) a ! k))
        = (\<Sum>k\<leftarrow>[0..<length a]. exp (a ! k - logsumexp a) * logsumexp a)"
    by (rule arg_cong [where f = sum_list], rule map_cong) simp_all
  also have "\<dots> = (\<Sum>x\<leftarrow>a. exp (x - logsumexp a) * logsumexp a)"
    by (rule sum_list_nth_upt [where f = "\<lambda>x. exp (x - logsumexp a) * logsumexp a"])
  also have "\<dots> = (\<Sum>x\<leftarrow>a. exp (x - logsumexp a)) * logsumexp a"
    by (simp add: sum_list_mult_const)
  finally show ?thesis using softmax_sum [OF assms] by simp
qed

lemma estep_cost_sum_list:
  assumes "shapes_ok X mixture"
  shows "snd (estep X mixture) =
         (\<Sum>i\<leftarrow>[0..<shape0 X]. ln (\<Sum>x\<leftarrow>estep_f X mixture ! i. exp x))"
proof -
  have K: "0 < shape0 (mu mixture)" using assms by (simp add: shapes_ok_def)
  have "snd (estep X mixture) =
        (\<Sum>i\<leftarrow>[0..<shape0 X]. \<Sum>k\<leftarrow>[0..<shape0 (mu mixture)].
           map (map exp) (log_post_of (estep_f X mixture)) ! i ! k *
             (estep_f X mixture ! i ! k - log_post_of (estep_f X mixture) ! i ! k))"
    by (simp add: estep_def Let_def)
  also have "\<dots> = (\<Sum>i\<leftarrow>[0..<shape0 X]. logsumexp (estep_f X mixture ! i))"
  proof (rule arg_cong [where f = sum_list], rule map_cong [OF refl])
    fix i assume "i \<in> set [0..<shape0 X]"
    then have i: "i < shape0 X" by simp
    then have ne: "estep_f X mixture ! i \<noteq> []"
      using K by (auto simp flip: length_greater_0_conv)
    show "(\<Sum>k\<leftarrow>[0..<shape0 (mu mixture)].
             map (map exp) (log_post_of (estep_f X mixture)) ! i ! k *
               (estep_f X mixture ! i ! k - log_post_of (estep_f X mixture) ! i ! k))
          = logsumexp (estep_f X mixture ! i)"
      using estep_row_likelihood [OF ne] i by (simp add: log_post_of_def)
  qed
  also have "\<dots> = (\<Sum>i\<leftarrow>[0..<shape0 X]. ln (\<Sum>x\<leftarrow>estep_f X mixture ! i. exp x))"
  proof (rule arg_cong [where f = sum_list], rule map_cong [OF refl])
    fix i assume "i \<in> set [0..<shape0 X]"
    then have "estep_f X mixture ! i \<noteq> []"
      using K by (auto simp flip: length_greater_0_conv)
    then show "logsumexp (estep_f X mixture ! i) = ln (\<Sum>x\<leftarrow>estep_f X mixture ! i. exp x)"
      by (rule logsumexp_eq)
  qed
  finally show ?thesis .
qed

text \<open>
  C7. The log-likelihood the E-step returns, the sum of \<open>post * (f - log_post)\<close> over
  all cells, is the sum over the examples of the row log-normalizer
  \<open>ln (\<Sum>k. exp (f i k))\<close>.
\<close>

theorem estep_cost_is_sum_of_normalizers:
  assumes "shapes_ok X mixture" and "logs_finite mixture"
  shows "snd (estep X mixture) =
         (\<Sum>i\<leftarrow>[0..<shape0 X]. ln (\<Sum>x\<leftarrow>estep_f X mixture ! i. exp x))"
  using assms(1) by (rule estep_cost_sum_list)

theorem estep_cost_is_sum_of_normalizers_witness:
  "shapes_ok X_demo mixture_demo \<and> logs_finite mixture_demo
   \<and> snd (estep X_demo mixture_demo) =
       (\<Sum>i\<leftarrow>[0..<shape0 X_demo]. ln (\<Sum>x\<leftarrow>estep_f X_demo mixture_demo ! i. exp x))"
  using estep_cost_is_sum_of_normalizers [OF shapes_ok_demo logs_finite_demo]
    shapes_ok_demo logs_finite_demo
  by blast

lemmas demo_defs = shape0_def shape1_def X_demo_def mixture_demo_def post_demo_def

lemma upt_3: "[0..<3] = [0, 1, 2]"
  by (simp add: numeral_3_eq_3)

lemma mstep_shapes_ok_demo: "mstep_shapes_ok X_demo post_demo mixture_demo"
  using shapes_ok_demo by (simp add: mstep_shapes_ok_def is_matrix_def demo_defs)

lemma is_matrix_row: "is_matrix n d A \<Longrightarrow> i < n \<Longrightarrow> length (A ! i) = d"
  by (auto simp: is_matrix_def list_all_length)

lemma shapes_ok_X_row: "shapes_ok X mixture \<Longrightarrow> i < shape0 X \<Longrightarrow> length (X ! i) = shape1 X"
  by (auto simp: shapes_ok_def dest: is_matrix_row)

lemma non_null_nth:
  "i < shape0 X \<Longrightarrow> j < length (X ! i) \<Longrightarrow> non_null X ! i ! j = (if X ! i ! j \<noteq> 0 then 1 else 0)"
  by (simp add: non_null_def shape0_def)

lemma X2_of_nth:
  "i < shape0 X \<Longrightarrow> j < length (X ! i) \<Longrightarrow> X2_of X ! i ! j = (if X ! i ! j \<noteq> 0 then 1 else 0)"
  by (simp add: X2_of_def shape0_def)

lemma sum_list_indicator: "(\<Sum>x\<leftarrow>xs. if P x then 1 else 0) = int (length (filter P xs))"
  by (induction xs) simp_all

lemma rated_nth:
  assumes "i < shape0 X" and "length (X ! i) = shape1 X"
  shows "rated X ! i = int (length (observed_dims X i))"
proof -
  have "rated X ! i = (\<Sum>x\<leftarrow>X ! i. if x \<noteq> 0 then 1 else 0)"
    using assms(1) by (simp add: rated_def non_null_def shape0_def comp_def)
  also have "\<dots> = int (length (filter (\<lambda>x. x \<noteq> 0) (X ! i)))"
    by (rule sum_list_indicator)
  also have "filter (\<lambda>x. x \<noteq> 0) (X ! i) =
             filter (\<lambda>x. x \<noteq> 0) (map (\<lambda>j. X ! i ! j) [0..<length (X ! i)])"
    by (simp only: map_nth)
  also have "length \<dots> = length (observed_dims X i)"
    by (simp add: filter_map observed_dims_def assms(2) comp_def)
  finally show ?thesis .
qed

lemma estep_norm_nth:
  assumes "i < shape0 X" and "length (X ! i) = shape1 X" and "k < shape0 (mu mixture)"
  shows "estep_norm X mixture ! i ! k = dist_spec X mixture i k"
proof -
  have "estep_norm X mixture ! i ! k =
        (\<Sum>j\<leftarrow>[0..<shape1 X]. (X ! i ! j - of_int (non_null X ! i ! j) * (mu mixture ! k ! j)) ^ 2)"
    using assms by (simp add: estep_norm_def)
  also have "\<dots> = (\<Sum>j\<leftarrow>[0..<shape1 X]. if X ! i ! j \<noteq> 0 then (X ! i ! j - mu mixture ! k ! j) ^ 2 else 0)"
    by (rule arg_cong [where f = sum_list], rule map_cong) (simp_all add: non_null_nth assms)
  also have "\<dots> = dist_spec X mixture i k"
    unfolding dist_spec_def observed_dims_def
    by (simp add: sum_list_map_filter')
  finally show ?thesis .
qed

lemma estep_f_nth:
  assumes "i < shape0 X" and "length (X ! i) = shape1 X" and "k < shape0 (mu mixture)"
  shows "estep_f X mixture ! i ! k = f_spec X mixture i k"
  using assms
  by (simp add: estep_f_def f_spec_def estep_norm_nth rated_nth mult.commute)

lemma dist_spec_cong:
  assumes "\<forall>j\<in>set (observed_dims X i). mu m1 ! k ! j = mu m2 ! k ! j"
  shows "dist_spec X m1 i k = dist_spec X m2 i k"
  unfolding dist_spec_def
  by (rule arg_cong [where f = sum_list], rule map_cong) (simp_all add: assms)

text \<open>
  C3. For every example \<open>i\<close> and component \<open>k\<close> the unnormalized log-responsibility
  the E-step computes is the specification's \<open>f(i,k)\<close>, built from the distance over
  the observed dimensions of row \<open>i\<close> and their number. A mean that differs from the
  given one only in dimensions row \<open>i\<close> does not observe gives the same value.
\<close>

theorem estep_f_formula:
  assumes "shapes_ok X mixture" and "i < shape0 X" and "k < shape0 (mu mixture)"
  shows "estep_f X mixture ! i ! k = f_spec X mixture i k \<and>
         (\<forall>mu'. shapes_ok X (mixture\<lparr>mu := mu'\<rparr>) \<and> shape0 mu' = shape0 (mu mixture) \<and>
                 (\<forall>j < shape1 X. X ! i ! j \<noteq> 0 \<longrightarrow> mu' ! k ! j = mu mixture ! k ! j)
            \<longrightarrow> estep_f X (mixture\<lparr>mu := mu'\<rparr>) ! i ! k = estep_f X mixture ! i ! k)"
proof (intro conjI allI impI)
  have row: "length (X ! i) = shape1 X"
    using assms(1,2) by (rule shapes_ok_X_row)
  show eq: "estep_f X mixture ! i ! k = f_spec X mixture i k"
    using assms(2) row assms(3) by (rule estep_f_nth)
  fix mu'
  assume h: "shapes_ok X (mixture\<lparr>mu := mu'\<rparr>) \<and> shape0 mu' = shape0 (mu mixture) \<and>
             (\<forall>j < shape1 X. X ! i ! j \<noteq> 0 \<longrightarrow> mu' ! k ! j = mu mixture ! k ! j)"
  then have k': "k < shape0 (mu (mixture\<lparr>mu := mu'\<rparr>))" using assms(3) by simp
  have "\<forall>j\<in>set (observed_dims X i). mu (mixture\<lparr>mu := mu'\<rparr>) ! k ! j = mu mixture ! k ! j"
    using h by (simp add: observed_dims_def)
  then have "dist_spec X (mixture\<lparr>mu := mu'\<rparr>) i k = dist_spec X mixture i k"
    by (rule dist_spec_cong)
  then have "f_spec X (mixture\<lparr>mu := mu'\<rparr>) i k = f_spec X mixture i k"
    by (simp add: f_spec_def)
  then show "estep_f X (mixture\<lparr>mu := mu'\<rparr>) ! i ! k = estep_f X mixture ! i ! k"
    using estep_f_nth [OF assms(2) row k'] eq by simp
qed

theorem estep_f_formula_witness:
  "shapes_ok X_demo mixture_demo \<and> 0 < shape0 X_demo \<and> 0 < shape0 (mu mixture_demo)
   \<and> estep_f X_demo mixture_demo ! 0 ! 0 = f_spec X_demo mixture_demo 0 0
   \<and> estep_f X_demo (mixture_demo\<lparr>mu := [[1, 7, 3], [0, 2, 3]]\<rparr>) ! 0 ! 0
       = estep_f X_demo mixture_demo ! 0 ! 0"
proof -
  have i: "0 < shape0 X_demo" and k: "0 < shape0 (mu mixture_demo)"
    by (simp_all add: demo_defs)
  note formula = estep_f_formula [OF shapes_ok_demo i k]
  have sh: "shapes_ok X_demo (mixture_demo\<lparr>mu := [[1, 7, 3], [0, 2, 3]]\<rparr>)"
    by (simp add: shapes_ok_def is_matrix_def demo_defs)
  have len: "shape0 [[1, 7, 3], [0, 2, 3 :: real]] = shape0 (mu mixture_demo)"
    by (simp add: demo_defs)
  have eq: "\<forall>j < shape1 X_demo. X_demo ! 0 ! j \<noteq> 0 \<longrightarrow>
              [[1, 7, 3], [0, 2, 3]] ! 0 ! j = mu mixture_demo ! 0 ! j"
    by (simp add: demo_defs numeral_3_eq_3 less_Suc_eq)
  have "estep_f X_demo (mixture_demo\<lparr>mu := [[1, 7, 3], [0, 2, 3]]\<rparr>) ! 0 ! 0
        = estep_f X_demo mixture_demo ! 0 ! 0"
    using formula sh len eq by blast
  then show ?thesis using formula shapes_ok_demo i k by blast
qed

section \<open>Properties of the M-step\<close>

lemma shape1_matrix: "is_matrix n d A \<Longrightarrow> 0 < n \<Longrightarrow> shape1 A = d"
  by (cases A) (auto simp: is_matrix_def shape1_def)

lemma mstep_shapes_post:
  assumes "mstep_shapes_ok X post mixture"
  shows "shape0 post = shape0 X" and "shape1 post = shape0 (mu mixture)"
    and "\<And>i. i < shape0 X \<Longrightarrow> length (post ! i) = shape0 (mu mixture)"
proof -
  have m: "is_matrix (shape0 X) (shape0 (mu mixture)) post" and n: "0 < shape0 X"
    using assms by (simp_all add: mstep_shapes_ok_def shapes_ok_def)
  show "shape0 post = shape0 X" using m by (simp add: is_matrix_def shape0_def)
  show "shape1 post = shape0 (mu mixture)" using m n by (rule shape1_matrix)
  show "\<And>i. i < shape0 X \<Longrightarrow> length (post ! i) = shape0 (mu mixture)"
    using m by (rule is_matrix_row)
qed

lemma mu_den_observed:
  assumes "is_matrix (shape0 X) (shape1 X) X" and "j < shape1 X"
  shows "mu_den X post k j = (\<Sum>i\<leftarrow>[0..<shape0 X]. post ! i ! k * observed X i j)"
  unfolding mu_den_def
  by (rule arg_cong [where f = sum_list], rule map_cong)
     (simp_all add: X2_of_nth observed_def is_matrix_row [OF assms(1)] assms(2))

lemma mu_num_observed:
  "mu_num X post k j = (\<Sum>i\<leftarrow>[0..<shape0 X]. post ! i ! k * X ! i ! j * observed X i j)"
  unfolding mu_num_def
  by (rule arg_cong [where f = sum_list], rule map_cong) (simp_all add: observed_def)

lemma mstep_mu_nth:
  "k < shape1 post \<Longrightarrow> j < shape1 X \<Longrightarrow>
   mu (mstep X post mixture mv) ! k ! j =
     (if mu_den X post k j \<ge> 1 then mu_num X post k j / mu_den X post k j
      else mu mixture ! k ! j)"
  by (simp add: mstep_def Let_def mstep_mu_def)

text \<open>
  C6. For every component \<open>k\<close> and dimension \<open>j\<close>: when the observed responsibility
  mass is at least one the new mean is the responsibility-weighted average of the
  observed values; when it is below one the new mean is the previous mean.
\<close>

theorem mstep_mean_formula:
  assumes "mstep_shapes_ok X post mixture" and "k < shape0 (mu mixture)" and "j < shape1 X"
  shows "((\<Sum>i\<leftarrow>[0..<shape0 X]. post ! i ! k * observed X i j) \<ge> 1 \<longrightarrow>
            mu (mstep X post mixture min_variance) ! k ! j =
              (\<Sum>i\<leftarrow>[0..<shape0 X]. post ! i ! k * X ! i ! j * observed X i j) /
              (\<Sum>i\<leftarrow>[0..<shape0 X]. post ! i ! k * observed X i j))
       \<and> ((\<Sum>i\<leftarrow>[0..<shape0 X]. post ! i ! k * observed X i j) < 1 \<longrightarrow>
            mu (mstep X post mixture min_variance) ! k ! j = mu mixture ! k ! j)"
proof -
  have X: "is_matrix (shape0 X) (shape1 X) X"
    using assms(1) by (simp add: mstep_shapes_ok_def shapes_ok_def)
  have k: "k < shape1 post"
    using assms(1,2) by (simp add: mstep_shapes_post)
  show ?thesis
    using mstep_mu_nth [OF k assms(3), of mixture min_variance]
    by (simp add: mu_den_observed [OF X assms(3)] mu_num_observed)
qed

theorem mstep_mean_formula_witness:
  "mstep_shapes_ok X_demo post_demo mixture_demo
   \<and> mu (mstep X_demo post_demo mixture_demo (1 / 4)) ! 0 ! 0 = 1
   \<and> mu (mstep X_demo post_demo mixture_demo (1 / 4)) ! 1 ! 0 = 0"
proof -
  have k0: "0 < shape0 (mu mixture_demo)" and k1: "1 < shape0 (mu mixture_demo)"
    and j: "0 < shape1 X_demo"
    by (simp_all add: demo_defs)
  have d0: "(\<Sum>i\<leftarrow>[0..<shape0 X_demo]. post_demo ! i ! 0 * observed X_demo i 0) = 3 / 2"
    and n0: "(\<Sum>i\<leftarrow>[0..<shape0 X_demo]. post_demo ! i ! 0 * X_demo ! i ! 0 * observed X_demo i 0) = 3 / 2"
    and d1: "(\<Sum>i\<leftarrow>[0..<shape0 X_demo]. post_demo ! i ! 1 * observed X_demo i 0) = 1 / 2"
    by (simp_all add: upt_3 observed_def demo_defs)
  have "mu (mstep X_demo post_demo mixture_demo (1 / 4)) ! 0 ! 0 =
        (\<Sum>i\<leftarrow>[0..<shape0 X_demo]. post_demo ! i ! 0 * X_demo ! i ! 0 * observed X_demo i 0) /
        (\<Sum>i\<leftarrow>[0..<shape0 X_demo]. post_demo ! i ! 0 * observed X_demo i 0)"
    using mstep_mean_formula [OF mstep_shapes_ok_demo k0 j, of "1 / 4"] d0 by linarith
  then have a: "mu (mstep X_demo post_demo mixture_demo (1 / 4)) ! 0 ! 0 = 1"
    by (simp add: d0 n0)
  have "mu (mstep X_demo post_demo mixture_demo (1 / 4)) ! 1 ! 0 = mu mixture_demo ! 1 ! 0"
    using mstep_mean_formula [OF mstep_shapes_ok_demo k1 j, of "1 / 4"] d1 by linarith
  then have b: "mu (mstep X_demo post_demo mixture_demo (1 / 4)) ! 1 ! 0 = 0"
    by (simp add: mixture_demo_def)
  show ?thesis using a b mstep_shapes_ok_demo by simp
qed

lemma sum_list_upt_swap:
  "(\<Sum>k\<leftarrow>[0..<K]. \<Sum>i\<leftarrow>[0..<n]. (f i k :: real)) = (\<Sum>i\<leftarrow>[0..<n]. \<Sum>k\<leftarrow>[0..<K]. f i k)"
  by (simp add: interv_sum_list_conv_sum_set_nat) (rule sum.swap)

lemma sum_list_divide_const: "(\<Sum>x\<leftarrow>xs. f x / (c::real)) = (\<Sum>x\<leftarrow>xs. f x) / c"
  by (induction xs) (simp_all add: add_divide_distrib)

lemma sum_list_mstep_p:
  assumes "is_matrix n K post" and "0 < n"
    and rows: "\<forall>i < n. sum_list (post ! i) = 1"
  shows "sum_list (mstep_p post) = 1"
proof -
  have s0: "shape0 post = n" using assms(1) by (simp add: is_matrix_def shape0_def)
  have s1: "shape1 post = K" using assms(1,2) by (rule shape1_matrix)
  have "sum_list (mstep_p post) = (\<Sum>k\<leftarrow>[0..<K]. \<Sum>i\<leftarrow>[0..<n]. post ! i ! k) / real n"
    by (simp add: mstep_p_def s0 s1 sum_list_divide_const)
  also have "(\<Sum>k\<leftarrow>[0..<K]. \<Sum>i\<leftarrow>[0..<n]. post ! i ! k) = (\<Sum>i\<leftarrow>[0..<n]. \<Sum>k\<leftarrow>[0..<K]. post ! i ! k)"
    by (rule sum_list_upt_swap)
  also have "\<dots> = (\<Sum>i\<leftarrow>[0..<n]. 1)"
  proof (rule arg_cong [where f = sum_list], rule map_cong [OF refl])
    fix i assume "i \<in> set [0..<n]"
    then have i: "i < n" by simp
    then have "length (post ! i) = K" using assms(1) by (simp add: is_matrix_row)
    then have "(\<Sum>k\<leftarrow>[0..<K]. post ! i ! k) = sum_list (post ! i)"
      using sum_list_nth_upt [of "\<lambda>x. x" "post ! i"] by simp
    then show "(\<Sum>k\<leftarrow>[0..<K]. post ! i ! k) = 1" using rows i by simp
  qed
  also have "\<dots> = real n" by (simp add: sum_list_triv)
  finally show ?thesis using assms(2) by simp
qed

lemma mstep_var_ge:
  "k < shape1 post \<Longrightarrow> min_variance \<le> mstep_var X post mu_h min_variance ! k"
  by (simp add: mstep_var_def Let_def)

text \<open>
  C5. When every row of \<open>post\<close> sums to one, the weights the M-step returns sum to one,
  each weight is the column sum of \<open>post\<close> divided by \<open>n\<close>, and every variance is at
  least the floor \<open>min_variance\<close>, whatever floor is passed.
\<close>

theorem mstep_weights_and_variance_floor:
  assumes "mstep_shapes_ok X post mixture"
    and "\<forall>i < shape0 X. sum_list (post ! i) = 1"
  shows "sum_list (p (mstep X post mixture min_variance)) = 1
       \<and> length (p (mstep X post mixture min_variance)) = shape0 (mu mixture)
       \<and> (\<forall>k < shape0 (mu mixture).
            p (mstep X post mixture min_variance) ! k =
              (\<Sum>i\<leftarrow>[0..<shape0 X]. post ! i ! k) / real (shape0 X))
       \<and> length (var (mstep X post mixture min_variance)) = shape0 (mu mixture)
       \<and> (\<forall>k < shape0 (mu mixture).
            var (mstep X post mixture min_variance) ! k \<ge> min_variance)"
proof -
  have post: "is_matrix (shape0 X) (shape0 (mu mixture)) post" and n: "0 < shape0 X"
    using assms(1) by (simp_all add: mstep_shapes_ok_def shapes_ok_def)
  note sh = mstep_shapes_post [OF assms(1)]
  have "sum_list (mstep_p post) = 1"
    using post n assms(2) by (rule sum_list_mstep_p)
  moreover have "length (mstep_p post) = shape0 (mu mixture)"
    by (simp add: mstep_p_def sh)
  moreover have "\<forall>k < shape0 (mu mixture).
      mstep_p post ! k = (\<Sum>i\<leftarrow>[0..<shape0 X]. post ! i ! k) / real (shape0 X)"
    by (simp add: mstep_p_def sh)
  moreover have "length (mstep_var X post (mstep_mu X post mixture) min_variance) = shape0 (mu mixture)"
    by (simp add: mstep_var_def sh)
  moreover have "\<forall>k < shape0 (mu mixture).
      min_variance \<le> mstep_var X post (mstep_mu X post mixture) min_variance ! k"
    by (simp add: mstep_var_ge sh)
  ultimately show ?thesis
    by (simp add: mstep_def Let_def)
qed

theorem mstep_weights_and_variance_floor_witness:
  "mstep_shapes_ok X_demo post_demo mixture_demo
   \<and> list_all (\<lambda>r. sum_list r = 1) post_demo
   \<and> sum_list (p (mstep X_demo post_demo mixture_demo (1 / 4))) = 1
   \<and> p (mstep X_demo post_demo mixture_demo (1 / 4)) ! 0 = 7 / 12
   \<and> var (mstep X_demo post_demo mixture_demo (1 / 4)) ! 0 \<ge> 1 / 4"
proof -
  have rows: "\<forall>i < shape0 X_demo. sum_list (post_demo ! i) = 1"
    by (simp add: demo_defs numeral_3_eq_3 less_Suc_eq)
  have all: "list_all (\<lambda>r. sum_list r = 1) post_demo" by (simp add: post_demo_def)
  have k: "0 < shape0 (mu mixture_demo)" by (simp add: demo_defs)
  note floor = mstep_weights_and_variance_floor [OF mstep_shapes_ok_demo rows, of "1 / 4"]
  have s: "sum_list (p (mstep X_demo post_demo mixture_demo (1 / 4))) = 1"
    using floor by blast
  have "p (mstep X_demo post_demo mixture_demo (1 / 4)) ! 0 =
        (\<Sum>i\<leftarrow>[0..<shape0 X_demo]. post_demo ! i ! 0) / real (shape0 X_demo)"
    using floor k by blast
  also have "\<dots> = 7 / 12"
    by (simp add: upt_3 demo_defs)
  finally have w: "p (mstep X_demo post_demo mixture_demo (1 / 4)) ! 0 = 7 / 12" .
  have v: "var (mstep X_demo post_demo mixture_demo (1 / 4)) ! 0 \<ge> 1 / 4"
    using floor k by blast
  show ?thesis using mstep_shapes_ok_demo all s w v by blast
qed

section \<open>Properties of the imputation\<close>

lemma shapes_ok_blank: "shapes_ok X_blank mixture_blank"
  by (simp add: shapes_ok_def is_matrix_def shape0_def shape1_def X_blank_def mixture_blank_def)

lemma logs_finite_blank: "logs_finite mixture_blank"
  by (simp add: logs_finite_def mixture_blank_def)

lemma upt_2: "[0..<2] = [0, 1]"
  by (simp add: numeral_2_eq_2)

lemma set_where_zero:
  "set (where_zero X) = {(i, j). i < shape0 X \<and> j < shape1 X \<and> X ! i ! j = 0}"
  by (auto simp: where_zero_def)

lemma is_matrix_set_cell:
  "is_matrix n d A \<Longrightarrow> is_matrix n d (set_cell A c v)"
proof (cases "fst c < length A")
  case True
  assume "is_matrix n d A"
  with True show ?thesis
    by (auto simp: is_matrix_def set_cell_def list_all_length nth_list_update)
next
  case False
  assume "is_matrix n d A"
  with False show ?thesis
    by (auto simp: is_matrix_def set_cell_def list_update_beyond)
qed

lemma set_cell_nth:
  assumes "is_matrix n d A" and "i < n" and "j < d" and "fst c < n" and "snd c < d"
  shows "set_cell A c v ! i ! j = (if (i, j) = c then v else A ! i ! j)"
  using assms
  by (cases c) (auto simp: set_cell_def is_matrix_def list_all_length nth_list_update)

lemma fold_set_cell:
  assumes "is_matrix n d A" and "\<forall>c\<in>set cells. fst c < n \<and> snd c < d"
  shows "is_matrix n d (fold (\<lambda>c out. set_cell out c (g c)) cells A) \<and>
         (\<forall>i < n. \<forall>j < d. fold (\<lambda>c out. set_cell out c (g c)) cells A ! i ! j =
            (if (i, j) \<in> set cells then g (i, j) else A ! i ! j))"
  using assms
proof (induction cells arbitrary: A)
  case Nil
  then show ?case by simp
next
  case (Cons c cells)
  have m: "is_matrix n d (set_cell A c (g c))"
    using Cons.prems(1) by (rule is_matrix_set_cell)
  have r: "\<forall>c\<in>set cells. fst c < n \<and> snd c < d" and c: "fst c < n" "snd c < d"
    using Cons.prems(2) by simp_all
  note IH = Cons.IH [OF m r]
  show ?case
  proof (intro conjI allI impI)
    show "is_matrix n d (fold (\<lambda>c out. set_cell out c (g c)) (c # cells) A)"
      using IH by simp
    fix i j assume i: "i < n" and j: "j < d"
    have "fold (\<lambda>c out. set_cell out c (g c)) (c # cells) A ! i ! j =
          (if (i, j) \<in> set cells then g (i, j) else set_cell A c (g c) ! i ! j)"
      using IH i j by simp
    also have "set_cell A c (g c) ! i ! j = (if (i, j) = c then g c else A ! i ! j)"
      using Cons.prems(1) i j c by (rule set_cell_nth)
    finally show "fold (\<lambda>c out. set_cell out c (g c)) (c # cells) A ! i ! j =
          (if (i, j) \<in> set (c # cells) then g (i, j) else A ! i ! j)"
      by auto
  qed
qed

lemma fill_matrix_fold:
  "fill_matrix X mixture =
     fold (\<lambda>c out. set_cell out c
             (\<Sum>k\<leftarrow>[0..<shape0 (mu mixture)]. fst (estep X mixture) ! fst c ! k * (mu mixture ! k ! snd c)))
       (where_zero X) X"
  by (simp add: fill_matrix_def Let_def fst_estep)

lemma fold_heap_update:
  assumes "out < length h"
  shows "fold (\<lambda>c h'. h'[out := F c (h' ! out)]) cells h = h[out := fold F cells (h ! out)]"
  using assms
proof (induction cells arbitrary: h)
  case Nil
  then show ?case by simp
next
  case (Cons c cells)
  then show ?case by simp
qed

lemma fill_matrix_heap_eq:
  assumes "x < length h"
  shows "fill_matrix_heap h x mixture = (h @ [fill_matrix (h ! x) mixture], length h)"
proof -
  let ?g = "\<lambda>c. \<Sum>k\<leftarrow>[0..<shape0 (mu mixture)].
                 fst (estep (h ! x) mixture) ! fst c ! k * (mu mixture ! k ! snd c)"
  have "fill_matrix_heap h x mixture =
        (fold (\<lambda>c h'. h'[length h := set_cell (h' ! length h) c (?g c)])
           (where_zero (h ! x)) (h @ [h ! x]), length h)"
    using assms by (simp add: fill_matrix_heap_def np_copy_def Let_def nth_append fst_estep)
  also have "fold (\<lambda>c h'. h'[length h := set_cell (h' ! length h) c (?g c)])
               (where_zero (h ! x)) (h @ [h ! x])
             = (h @ [h ! x])[length h := fold (\<lambda>c out. set_cell out c (?g c)) (where_zero (h ! x))
                                           ((h @ [h ! x]) ! length h)]"
    by (rule fold_heap_update [where F = "\<lambda>c out. set_cell out c (?g c)"]) simp
  also have "\<dots> = h @ [fill_matrix (h ! x) mixture]"
    by (simp add: fill_matrix_fold)
  finally show ?thesis .
qed

lemma fill_matrix_cells:
  assumes "shapes_ok X mixture"
  shows "is_matrix (shape0 X) (shape1 X) (fill_matrix X mixture)
       \<and> (\<forall>i < shape0 X. \<forall>j < shape1 X.
            fill_matrix X mixture ! i ! j =
              (if X ! i ! j \<noteq> 0 then X ! i ! j
               else \<Sum>k\<leftarrow>[0..<shape0 (mu mixture)].
                      fst (estep X mixture) ! i ! k * (mu mixture ! k ! j)))"
proof -
  let ?g = "\<lambda>c. \<Sum>k\<leftarrow>[0..<shape0 (mu mixture)].
                 fst (estep X mixture) ! fst c ! k * (mu mixture ! k ! snd c)"
  have X: "is_matrix (shape0 X) (shape1 X) X"
    using assms(1) by (simp add: shapes_ok_def)
  have cells: "\<forall>c\<in>set (where_zero X). fst c < shape0 X \<and> snd c < shape1 X"
    by (auto simp: set_where_zero)
  note F = fold_set_cell [OF X cells, of ?g, folded fill_matrix_fold]
  then show ?thesis by (simp add: set_where_zero)
qed

text \<open>
  C8. The matrix \<open>fill_matrix\<close> returns has the shape of \<open>X\<close>; a cell that is not
  zero in \<open>X\<close> is copied, a zero cell becomes \<open>\<Sum>k. post i k * mu k j\<close> with the
  responsibilities of the E-step on \<open>X\<close>; and in the store the returned array is a new
  one, every array allocated before the call, \<open>X\<close> among them, being left as it was.
\<close>

theorem fill_matrix_frame:
  assumes "shapes_ok X mixture" and "logs_finite mixture" and "x < length h" and "h ! x = X"
  shows "is_matrix (shape0 X) (shape1 X) (fill_matrix X mixture)
       \<and> (\<forall>i < shape0 X. \<forall>j < shape1 X.
            fill_matrix X mixture ! i ! j =
              (if X ! i ! j \<noteq> 0 then X ! i ! j
               else \<Sum>k\<leftarrow>[0..<shape0 (mu mixture)].
                      fst (estep X mixture) ! i ! k * (mu mixture ! k ! j)))
       \<and> fst (fill_matrix_heap h x mixture) ! snd (fill_matrix_heap h x mixture)
           = fill_matrix X mixture
       \<and> take (length h) (fst (fill_matrix_heap h x mixture)) = h
       \<and> fst (fill_matrix_heap h x mixture) ! x = X"
proof -
  have heap: "fill_matrix_heap h x mixture = (h @ [fill_matrix X mixture], length h)"
    using fill_matrix_heap_eq [OF assms(3), of mixture] assms(4) by simp
  show ?thesis
    using fill_matrix_cells [OF assms(1)] assms(3,4) by (simp add: heap nth_append)
qed

theorem fill_matrix_frame_witness:
  "shapes_ok X_demo mixture_demo \<and> logs_finite mixture_demo
   \<and> is_matrix 3 3 (fill_matrix X_demo mixture_demo)
   \<and> fill_matrix X_demo mixture_demo ! 0 ! 0 = 1
   \<and> fill_matrix X_demo mixture_demo ! 0 ! 1 =
       fst (estep X_demo mixture_demo) ! 0 ! 0 * 0 + fst (estep X_demo mixture_demo) ! 0 ! 1 * 2
   \<and> fst (fill_matrix_heap [X_demo] 0 mixture_demo) ! snd (fill_matrix_heap [X_demo] 0 mixture_demo)
       = fill_matrix X_demo mixture_demo
   \<and> fst (fill_matrix_heap [X_demo] 0 mixture_demo) ! 0 = X_demo"
proof -
  have x: "0 < length [X_demo]" and hx: "[X_demo] ! 0 = X_demo" by simp_all
  note frame = fill_matrix_frame [OF shapes_ok_demo logs_finite_demo x hx]
  have sh: "shape0 X_demo = 3" "shape1 X_demo = 3" "shape0 (mu mixture_demo) = 2"
    by (simp_all add: demo_defs)
  have c00: "fill_matrix X_demo mixture_demo ! 0 ! 0 =
      (if X_demo ! 0 ! 0 \<noteq> 0 then X_demo ! 0 ! 0
       else \<Sum>k\<leftarrow>[0..<shape0 (mu mixture_demo)].
              fst (estep X_demo mixture_demo) ! 0 ! k * (mu mixture_demo ! k ! 0))"
    using frame sh by simp
  have c01: "fill_matrix X_demo mixture_demo ! 0 ! 1 =
      (if X_demo ! 0 ! 1 \<noteq> 0 then X_demo ! 0 ! 1
       else \<Sum>k\<leftarrow>[0..<shape0 (mu mixture_demo)].
              fst (estep X_demo mixture_demo) ! 0 ! k * (mu mixture_demo ! k ! 1))"
    using frame sh by simp
  have a: "fill_matrix X_demo mixture_demo ! 0 ! 0 = 1"
    using c00 by (simp add: X_demo_def)
  have b: "fill_matrix X_demo mixture_demo ! 0 ! 1 =
       fst (estep X_demo mixture_demo) ! 0 ! 0 * 0 + fst (estep X_demo mixture_demo) ! 0 ! 1 * 2"
    using c01 by (simp add: sh upt_2) (simp add: X_demo_def mixture_demo_def)
  show ?thesis
    using frame a b shapes_ok_demo logs_finite_demo sh by simp
qed

lemma observed_dims_empty:
  assumes "\<forall>j < shape1 X. X ! i ! j = 0"
  shows "observed_dims X i = []"
  using assms by (simp add: observed_dims_def filter_empty_conv)

lemma estep_f_unobserved_row:
  assumes "shapes_ok X mixture" and "i < shape0 X" and "\<forall>j < shape1 X. X ! i ! j = 0"
  shows "estep_f X mixture ! i = map (\<lambda>w. ln (w + 1 / 10 ^ 16)) (p mixture)"
proof (rule nth_equalityI)
  have len: "length (p mixture) = shape0 (mu mixture)"
    using assms(1) by (simp add: shapes_ok_def)
  show "length (estep_f X mixture ! i) = length (map (\<lambda>w. ln (w + 1 / 10 ^ 16)) (p mixture))"
    using assms(2) len by simp
  fix k assume "k < length (estep_f X mixture ! i)"
  then have k: "k < shape0 (mu mixture)" using assms(2) by simp
  have "estep_f X mixture ! i ! k = f_spec X mixture i k"
    using assms(2) shapes_ok_X_row [OF assms(1,2)] k by (rule estep_f_nth)
  also have "\<dots> = ln (p mixture ! k + 1 / 10 ^ 16)"
    by (simp add: f_spec_def dist_spec_def observed_dims_empty [OF assms(3)])
  finally show "estep_f X mixture ! i ! k = map (\<lambda>w. ln (w + 1 / 10 ^ 16)) (p mixture) ! k"
    using k len by simp
qed

lemma sum_list_exp_ln:
  assumes "list_all (\<lambda>w. 0 < w + c) ws"
  shows "(\<Sum>x\<leftarrow>map (\<lambda>w. ln (w + c)) ws. exp x) = (\<Sum>w\<leftarrow>ws. w + (c::real))"
  using assms by (induction ws) simp_all

lemma post_unobserved_row:
  assumes "shapes_ok X mixture" and "logs_finite mixture" and "i < shape0 X"
    and "\<forall>j < shape1 X. X ! i ! j = 0" and "k < shape0 (mu mixture)"
  shows "fst (estep X mixture) ! i ! k = smoothed_weight mixture k"
proof -
  let ?row = "map (\<lambda>w. ln (w + 1 / 10 ^ 16)) (p mixture)"
  have len: "length (p mixture) = shape0 (mu mixture)"
    using assms(1) by (simp add: shapes_ok_def)
  have pos: "list_all (\<lambda>w. 0 < w + 1 / 10 ^ 16) (p mixture)"
    using assms(2) by (simp add: logs_finite_def)
  then have pk: "0 < p mixture ! k + 1 / 10 ^ 16"
    using assms(5) len by (simp add: list_all_length)
  have ne: "?row \<noteq> []"
    using assms(5) len by auto
  have "fst (estep X mixture) ! i ! k = exp (?row ! k - logsumexp ?row)"
    using assms(3,5) len
    by (simp add: post_row estep_f_unobserved_row [OF assms(1,3,4)])
  also have "\<dots> = exp (?row ! k) / exp (logsumexp ?row)"
    by (simp add: exp_diff)
  also have "exp (logsumexp ?row) = (\<Sum>w\<leftarrow>p mixture. w + 1 / 10 ^ 16)"
    using exp_logsumexp [OF ne] sum_list_exp_ln [OF pos] by simp
  also have "exp (?row ! k) = p mixture ! k + 1 / 10 ^ 16"
    using pk assms(5) len by simp
  finally show ?thesis by (simp add: smoothed_weight_def)
qed

text \<open>
  C10. For a user who has rated nothing, the responsibilities are the smoothed, normalized
  mixing weights, an expression in which neither \<open>mu\<close> nor \<open>var\<close> occurs, and
  \<open>fill_matrix\<close> fills every cell of that row with the mean of the component means
  under those weights.
\<close>

theorem unobserved_row_gets_smoothed_weights:
  assumes "shapes_ok X mixture" and "logs_finite mixture" and "i < shape0 X"
    and "\<forall>j < shape1 X. X ! i ! j = 0"
  shows "(\<forall>k < shape0 (mu mixture). fst (estep X mixture) ! i ! k = smoothed_weight mixture k)
       \<and> (\<forall>j < shape1 X. fill_matrix X mixture ! i ! j =
            (\<Sum>k\<leftarrow>[0..<shape0 (mu mixture)]. smoothed_weight mixture k * (mu mixture ! k ! j)))"
proof (intro conjI allI impI)
  fix k assume "k < shape0 (mu mixture)"
  with assms show "fst (estep X mixture) ! i ! k = smoothed_weight mixture k"
    by (rule post_unobserved_row)
next
  fix j assume j: "j < shape1 X"
  have "fill_matrix X mixture ! i ! j =
        (if X ! i ! j \<noteq> 0 then X ! i ! j
         else \<Sum>k\<leftarrow>[0..<shape0 (mu mixture)]. fst (estep X mixture) ! i ! k * (mu mixture ! k ! j))"
    using fill_matrix_cells [OF assms(1)] assms(3) j by blast
  also have "\<dots> = (\<Sum>k\<leftarrow>[0..<shape0 (mu mixture)]. fst (estep X mixture) ! i ! k * (mu mixture ! k ! j))"
    using assms(4) j by simp
  also have "\<dots> = (\<Sum>k\<leftarrow>[0..<shape0 (mu mixture)]. smoothed_weight mixture k * (mu mixture ! k ! j))"
    by (rule arg_cong [where f = sum_list], rule map_cong)
       (simp_all add: post_unobserved_row [OF assms])
  finally show "fill_matrix X mixture ! i ! j =
        (\<Sum>k\<leftarrow>[0..<shape0 (mu mixture)]. smoothed_weight mixture k * (mu mixture ! k ! j))" .
qed

theorem unobserved_row_gets_smoothed_weights_witness:
  "shapes_ok X_blank mixture_blank \<and> logs_finite mixture_blank
   \<and> list_all (\<lambda>x. x = 0) (X_blank ! 0)
   \<and> fst (estep X_blank mixture_blank) ! 0 ! 0 = 1 / 2
   \<and> fill_matrix X_blank mixture_blank ! 0 ! 0 = 2"
proof -
  have sh: "shape0 X_blank = 2" "shape1 X_blank = 2" "shape0 (mu mixture_blank) = 2"
    by (simp_all add: shape0_def shape1_def X_blank_def mixture_blank_def)
  have i: "0 < shape0 X_blank" by (simp add: sh)
  have zero: "\<forall>j < shape1 X_blank. X_blank ! 0 ! j = 0"
    by (simp add: sh) (simp add: X_blank_def numeral_2_eq_2 less_Suc_eq)
  note row = unobserved_row_gets_smoothed_weights [OF shapes_ok_blank logs_finite_blank i zero]
  have w: "smoothed_weight mixture_blank 0 = 1 / 2" "smoothed_weight mixture_blank (Suc 0) = 1 / 2"
    by (simp_all add: smoothed_weight_def mixture_blank_def)
  have m: "mu mixture_blank ! 0 ! 0 = 1" "mu mixture_blank ! Suc 0 ! 0 = 3"
    by (simp_all add: mixture_blank_def)
  have "fst (estep X_blank mixture_blank) ! 0 ! 0 = smoothed_weight mixture_blank 0"
    using row sh by simp
  then have a: "fst (estep X_blank mixture_blank) ! 0 ! 0 = 1 / 2" by (simp add: w)
  have "fill_matrix X_blank mixture_blank ! 0 ! 0 =
        (\<Sum>k\<leftarrow>[0..<shape0 (mu mixture_blank)]. smoothed_weight mixture_blank k * (mu mixture_blank ! k ! 0))"
    using row sh by simp
  also have "\<dots> = 2"
    by (simp add: sh upt_2 w m)
  finally have b: "fill_matrix X_blank mixture_blank ! 0 ! 0 = 2" .
  have "list_all (\<lambda>x. x = 0) (X_blank ! 0)" by (simp add: X_blank_def)
  then show ?thesis using a b shapes_ok_blank logs_finite_blank by simp
qed

section \<open>Properties of the convergence loop\<close>

lemma run_loop_continue:
  assumes "\<not> converged_at X mixture n"
  shows "run_loop X (mixture_at X mixture n) (prev_cost_at c X mixture n) n =
         run_loop X (mixture_at X mixture (Suc n)) (prev_cost_at c X mixture (Suc n)) (Suc n)"
  using assms
  by (subst run_loop.simps)
     (auto simp: converged_at_def prev_cost_at_def cost_at_def Let_def split: prod.splits)

lemma run_loop_stop:
  assumes "converged_at X mixture n"
  shows "run_loop X (mixture_at X mixture n) (prev_cost_at c X mixture n) n =
         Some (mixture_at X mixture (Suc n), fst (estep X (mixture_at X mixture n)),
               cost_at X mixture n, n)"
  using assms
  by (subst run_loop.simps)
     (auto simp: converged_at_def prev_cost_at_def cost_at_def Let_def split: prod.splits)

lemma run_loop_reaches:
  assumes "\<forall>j < n. \<not> converged_at X mixture j"
  shows "run_loop X mixture c 0 =
         run_loop X (mixture_at X mixture n) (prev_cost_at c X mixture n) n"
  using assms
proof (induction n)
  case 0
  then show ?case by (simp add: prev_cost_at_def)
next
  case (Suc n)
  then have "run_loop X mixture c 0 =
             run_loop X (mixture_at X mixture n) (prev_cost_at c X mixture n) n"
    by simp
  also have "\<dots> = run_loop X (mixture_at X mixture (Suc n)) (prev_cost_at c X mixture (Suc n)) (Suc n)"
    using Suc.prems by (intro run_loop_continue) simp
  finally show ?case .
qed

lemma mixture_at_fixed:
  assumes "mstep X (fst (estep X mixture)) mixture (1 / 4) = mixture"
  shows "mixture_at X mixture n = mixture"
  by (induction n) (simp_all add: assms)

lemma logsumexp_single: "logsumexp [x] = x"
  by (simp add: logsumexp_def)

lemma estep_single_post:
  "fst (estep [[x]] \<lparr>mu = [[m]], var = [v], p = [w]\<rparr>) = [[1]]"
  by (simp add: fst_estep estep_f_def log_post_of_def shape0_def logsumexp_single)

lemma mstep_fix: "mstep X_fix (fst (estep X_fix mixture_fix)) mixture_fix (1 / 4) = mixture_fix"
  unfolding X_fix_def mixture_fix_def estep_single_post
  by (simp add: mstep_def mstep_mu_def mstep_p_def mstep_var_def mu_den_def mu_num_def
      var_num_def var_den_def X2_of_def shape0_def shape1_def)

lemma run_loop_fixed:
  assumes "mstep X (fst (estep X mixture)) mixture (1 / 4) = mixture"
  shows "run_loop X mixture prev_cost 0 =
         Some (mixture, fst (estep X mixture), snd (estep X mixture), 1)"
proof -
  have c: "converged_at X mixture 1"
    by (simp add: converged_at_def cost_at_def mixture_at_fixed [OF assms] del: mixture_at.simps)
  have n: "\<forall>j < 1. \<not> converged_at X mixture j"
    by (simp add: converged_at_def)
  show ?thesis
    using run_loop_reaches [OF n, of prev_cost] run_loop_stop [OF c, of prev_cost]
    by (simp add: cost_at_def mixture_at_fixed [OF assms] del: mixture_at.simps)
qed

text \<open>
  C2. Each iteration runs the E-step, then the M-step. The test is made from the second
  iteration on (\<open>i > 0\<close>), whatever \<open>prev_cost\<close> held on entry. At the first
  iteration \<open>n\<close> whose improvement over the cost before is at most \<open>1e-6 * |cost|\<close>
  the loop returns the mixture that iteration's M-step produced, with the responsibilities
  and the cost of that iteration's E-step: the returned cost is the cost of the mixture
  that entered the iteration, not of the mixture returned.
\<close>

theorem run_returns_at_first_small_improvement:
  assumes "converged_at X mixture n" and "\<forall>j < n. \<not> converged_at X mixture j"
  shows "0 < n \<and>
         run prev_cost X mixture post =
           (case estep X (mixture_at X mixture n) of (post_n, cost_n) \<Rightarrow>
              Some (mstep X post_n (mixture_at X mixture n) (1 / 4), post_n, cost_n))"
proof -
  have "run_loop X mixture prev_cost 0 =
        Some (mixture_at X mixture (Suc n), fst (estep X (mixture_at X mixture n)),
              cost_at X mixture n, n)"
    using run_loop_reaches [OF assms(2)] run_loop_stop [OF assms(1)] by simp
  then show ?thesis
    using assms(1) by (simp add: run_def cost_at_def converged_at_def split: prod.splits)
qed

theorem run_returns_at_first_small_improvement_witness:
  "converged_at X_fix mixture_fix 1 \<and> \<not> converged_at X_fix mixture_fix 0
   \<and> run 0 X_fix mixture_fix [] =
       Some (mstep X_fix (fst (estep X_fix (mixture_at X_fix mixture_fix 1)))
               (mixture_at X_fix mixture_fix 1) (1 / 4),
             fst (estep X_fix (mixture_at X_fix mixture_fix 1)),
             snd (estep X_fix (mixture_at X_fix mixture_fix 1)))"
proof -
  have c: "converged_at X_fix mixture_fix 1"
    by (simp add: converged_at_def cost_at_def mixture_at_fixed [OF mstep_fix] del: mixture_at.simps)
  have n: "\<forall>j < 1. \<not> converged_at X_fix mixture_fix j"
    by (simp add: converged_at_def)
  have n0: "\<not> converged_at X_fix mixture_fix 0" by (simp add: converged_at_def)
  show ?thesis
    using run_returns_at_first_small_improvement [OF c n, of 0 "[]"] c n0
    by (simp add: split_beta del: mixture_at.simps)
qed

text \<open>
  C9. Started on a mixture at a local optimum, one that the M-step reproduces, the loop
  reaches its convergence test for the first time with the counter at \<open>i = 1\<close>, after
  exactly one iteration has gone before, and stops there: the cost has not changed, so
  the improvement is zero and within the tolerance. It returns the mixture unchanged,
  with its responsibilities and its log-likelihood, whatever \<open>prev_cost\<close> held on entry.
\<close>

theorem run_converges_after_one_iteration:
  assumes "mstep X (fst (estep X mixture)) mixture (1 / 4) = mixture"
  shows "converged_at X mixture 1
       \<and> run_loop X mixture prev_cost 0 =
           Some (mixture, fst (estep X mixture), snd (estep X mixture), 1)
       \<and> run prev_cost X mixture post = Some (mixture, fst (estep X mixture), snd (estep X mixture))"
proof -
  have "converged_at X mixture 1"
    by (simp add: converged_at_def cost_at_def mixture_at_fixed [OF assms] del: mixture_at.simps)
  then show ?thesis
    using run_loop_fixed [OF assms, of prev_cost] by (simp add: run_def)
qed

theorem run_converges_after_one_iteration_witness:
  "mstep X_fix (fst (estep X_fix mixture_fix)) mixture_fix (1 / 4) = mixture_fix
   \<and> converged_at X_fix mixture_fix 1
   \<and> run_loop X_fix mixture_fix 0 0 =
       Some (mixture_fix, fst (estep X_fix mixture_fix), snd (estep X_fix mixture_fix), 1)
   \<and> run 0 X_fix mixture_fix [] =
       Some (mixture_fix, fst (estep X_fix mixture_fix), snd (estep X_fix mixture_fix))"
  using run_converges_after_one_iteration [OF mstep_fix, of 0 "[]"] mstep_fix by blast

section \<open>Monotonicity of the log-likelihood\<close>

text \<open>
  One pass of the loop takes a mixture to \<open>mstep X (fst (estep X mixture)) mixture\<close>.
  The log-likelihood of the new mixture is compared with the old one in three steps:
  the difference of the row log-normalizers is at least the responsibility-weighted
  difference of the arrays \<open>f\<close>; that weighted difference splits, component by
  component, into a part in the mean and the variance and a part in the weight; the
  first part does not decrease under the mean update with its fallback followed by the
  floored variance update, provided the old variance is not below the floor, and the
  second can only lose what the smoothing of the weights by \<open>1e-16\<close> accounts for.
\<close>

lemma sum_list_upt_sum: "(\<Sum>k\<leftarrow>[0..<n]. f k) = (\<Sum>k<n. (f k :: real))"
  by (simp add: interv_sum_list_conv_sum_set_nat atLeast0LessThan)

lemma sum_list_nth_sum: "sum_list xs = (\<Sum>k<length xs. (xs ! k :: real))"
  by (simp add: sum_list_sum_nth atLeast0LessThan)

lemma sum_list_map_nth_sum: "(\<Sum>x\<leftarrow>xs. f x) = (\<Sum>k<length xs. (f (xs ! k) :: real))"
  using sum_list_nth_sum [of "map f xs"] by simp

text \<open>The exponential of a weighted mean is at most the weighted mean of the exponentials.\<close>

lemma weighted_exp_lower:
  assumes w: "\<forall>k<K. 0 \<le> w k" and one: "(\<Sum>k<K. w k) = 1"
  shows "exp (\<Sum>k<K. w k * d k) \<le> (\<Sum>k<K. w k * exp (d k :: real))"
proof -
  define c where "c = (\<Sum>k<K. w k * d k)"
  have "(\<Sum>k<K. w k * (1 + (d k - c))) \<le> (\<Sum>k<K. w k * exp (d k - c))"
  proof (rule sum_mono)
    fix k assume "k \<in> {..<K}"
    then have "0 \<le> w k" using w by simp
    moreover have "1 + (d k - c) \<le> exp (d k - c)" by (rule exp_ge_add_one_self)
    ultimately show "w k * (1 + (d k - c)) \<le> w k * exp (d k - c)"
      by (rule mult_left_mono [rotated])
  qed
  moreover have "(\<Sum>k<K. w k * (1 + (d k - c))) = 1"
  proof -
    have "(\<Sum>k<K. w k * (1 + (d k - c))) = (\<Sum>k<K. w k) + (\<Sum>k<K. w k * d k) - c * (\<Sum>k<K. w k)"
      by (simp add: algebra_simps sum.distrib sum_subtractf sum_distrib_left)
    then show ?thesis by (simp add: one c_def)
  qed
  moreover have "(\<Sum>k<K. w k * exp (d k - c)) = exp (- c) * (\<Sum>k<K. w k * exp (d k))"
    by (simp add: exp_diff exp_minus sum_distrib_left field_simps)
  ultimately have h: "1 \<le> exp (- c) * (\<Sum>k<K. w k * exp (d k))" by simp
  have "exp c = exp c * 1" by simp
  also have "\<dots> \<le> exp c * (exp (- c) * (\<Sum>k<K. w k * exp (d k)))"
    by (rule mult_left_mono [OF h]) simp
  also have "\<dots> = (exp c * exp (- c)) * (\<Sum>k<K. w k * exp (d k))"
    by (simp only: mult.assoc)
  also have "exp c * exp (- c) = 1" by (simp add: exp_minus)
  finally show ?thesis by (simp add: c_def)
qed

lemma lse_diff_lower:
  fixes a b :: "real list"
  assumes len: "length b = length a" and ne: "a \<noteq> []"
  shows "(\<Sum>k<length a. exp (a ! k - ln (\<Sum>x\<leftarrow>a. exp x)) * (b ! k - a ! k))
         \<le> ln (\<Sum>x\<leftarrow>b. exp x) - ln (\<Sum>x\<leftarrow>a. exp x)"
proof -
  define L where "L = ln (\<Sum>x\<leftarrow>a. exp x)"
  define w where "w k = exp (a ! k - L)" for k
  define d where "d k = b ! k - a ! k" for k
  have Sa: "0 < (\<Sum>x\<leftarrow>a. exp (x::real))" using ne by (rule sum_list_exp_pos)
  have bne: "b \<noteq> []" using len ne by auto
  have Sb: "0 < (\<Sum>x\<leftarrow>b. exp (x::real))" using bne by (rule sum_list_exp_pos)
  have eL: "exp L = (\<Sum>x\<leftarrow>a. exp x)" using Sa by (simp add: L_def)
  have w0: "\<forall>k<length a. 0 \<le> w k" by (simp add: w_def)
  have "(\<Sum>k<length a. w k) = exp (- L) * (\<Sum>k<length a. exp (a ! k))"
    by (simp add: w_def exp_diff exp_minus sum_distrib_left field_simps)
  also have "(\<Sum>k<length a. exp (a ! k)) = (\<Sum>x\<leftarrow>a. exp x)"
    by (simp add: sum_list_map_nth_sum)
  finally have w1: "(\<Sum>k<length a. w k) = 1"
    using Sa by (simp add: exp_minus eL)
  have "exp (\<Sum>k<length a. w k * d k) \<le> (\<Sum>k<length a. w k * exp (d k))"
    using w0 w1 by (rule weighted_exp_lower)
  also have "(\<Sum>k<length a. w k * exp (d k)) = exp (- L) * (\<Sum>k<length a. exp (b ! k))"
    by (simp add: w_def d_def exp_diff exp_minus sum_distrib_left field_simps)
  also have "(\<Sum>k<length a. exp (b ! k)) = (\<Sum>x\<leftarrow>b. exp x)"
    by (simp add: sum_list_map_nth_sum len)
  finally have "exp (\<Sum>k<length a. w k * d k) \<le> (\<Sum>x\<leftarrow>b. exp x) / (\<Sum>x\<leftarrow>a. exp x)"
    by (simp add: exp_minus eL field_simps)
  then have "(\<Sum>k<length a. w k * d k) \<le> ln ((\<Sum>x\<leftarrow>b. exp x) / (\<Sum>x\<leftarrow>a. exp x))"
    using Sa Sb by (simp add: ln_ge_iff)
  also have "\<dots> = ln (\<Sum>x\<leftarrow>b. exp x) - ln (\<Sum>x\<leftarrow>a. exp x)"
    using Sa Sb by (simp add: ln_div)
  finally show ?thesis by (simp add: w_def d_def L_def)
qed

text \<open>The weighted mean minimizes the weighted squared deviation.\<close>

lemma weighted_mean_min:
  fixes w x :: "nat \<Rightarrow> real"
  assumes W: "0 < (\<Sum>i<n. w i)"
  shows "(\<Sum>i<n. w i * (x i - (\<Sum>i<n. w i * x i) / (\<Sum>i<n. w i)) ^ 2) \<le> (\<Sum>i<n. w i * (x i - t) ^ 2)"
proof -
  define W where "W = (\<Sum>i<n. w i)"
  define S where "S = (\<Sum>i<n. w i * x i)"
  define Q where "Q = (\<Sum>i<n. w i * (x i) ^ 2)"
  have expand: "(\<Sum>i<n. w i * (x i - s) ^ 2) = Q - 2 * s * S + s ^ 2 * W" for s
  proof -
    have "(\<Sum>i<n. w i * (x i - s) ^ 2) = (\<Sum>i<n. (w i * (x i) ^ 2 - 2 * s * (w i * x i)) + s ^ 2 * w i)"
      by (rule sum.cong) (simp_all add: power2_eq_square algebra_simps)
    also have "\<dots> = Q - 2 * s * S + s ^ 2 * W"
      by (simp add: sum.distrib sum_subtractf sum_distrib_left Q_def S_def W_def)
    finally show ?thesis .
  qed
  have Wpos: "0 < W" using W by (simp add: W_def)
  have "(Q - 2 * t * S + t ^ 2 * W) - (Q - 2 * (S / W) * S + (S / W) ^ 2 * W) = W * (t - S / W) ^ 2"
    using Wpos by (simp add: power2_eq_square field_simps)
  moreover have "0 \<le> W * (t - S / W) ^ 2" using Wpos by simp
  ultimately have "Q - 2 * (S / W) * S + (S / W) ^ 2 * W \<le> Q - 2 * t * S + t ^ 2 * W"
    by linarith
  then show ?thesis
    unfolding expand by (simp add: S_def W_def)
qed

text \<open>The floored variance maximizes the variance part of the objective above the floor.\<close>

lemma ln_le_ratio: "0 < a \<Longrightarrow> 0 < b \<Longrightarrow> ln a - ln b \<le> a / b - (1::real)"
  using ln_le_minus_one [of "a / b"] by (simp add: ln_div)

lemma floored_variance_max:
  fixes A A' B c v :: real
  assumes A': "0 \<le> A'" and AA: "A' \<le> A" and B: "0 < B" and c: "0 < c" and v: "c \<le> v"
  defines "v' \<equiv> (if A' / B \<ge> c then A' / B else c)"
  shows "- (A / (2 * v)) - (B / 2) * ln v \<le> - (A' / (2 * v')) - (B / 2) * ln v'"
proof -
  have vpos: "0 < v" using c v by simp
  have v'pos: "0 < v'" using c by (simp add: v'_def)
  have v'c: "c \<le> v'" by (simp add: v'_def)
  have step1: "A' / (2 * v) \<le> A / (2 * v)"
    using AA vpos by (simp add: divide_le_cancel)
  have key: "A' / (2 * v') - A' / (2 * v) \<le> B / 2 - (B / 2) * (v' / v)"
  proof (cases "A' / B \<ge> c")
    case True
    then have "v' = A' / B" by (simp add: v'_def)
    then have "A' = B * v'" using B by simp
    then show ?thesis using vpos v'pos B by (simp add: field_simps)
  next
    case False
    then have v'eq: "v' = c" by (simp add: v'_def)
    from False have lt: "A' < B * c" using B by (simp add: field_simps)
    have "A' * (1 / (2 * v') - 1 / (2 * v)) \<le> (B * c) * (1 / (2 * v') - 1 / (2 * v))"
    proof (rule mult_right_mono)
      show "A' \<le> B * c" using lt by simp
      show "0 \<le> 1 / (2 * v') - 1 / (2 * v)"
        using v vpos c by (simp add: v'eq field_simps)
    qed
    also have "\<dots> = B / 2 - (B / 2) * (v' / v)"
      using vpos c by (simp add: v'eq field_simps)
    finally show ?thesis
      by (simp add: algebra_simps)
  qed
  have "ln v' - ln v \<le> v' / v - 1" using v'pos vpos by (rule ln_le_ratio)
  then have "(B / 2) * (ln v' - ln v) \<le> (B / 2) * (v' / v - 1)"
    using B by (intro mult_left_mono) simp_all
  then have "(B / 2) * ln v' - (B / 2) * ln v \<le> (B / 2) * (v' / v) - B / 2"
    by (simp only: right_diff_distrib mult_1_right)
  with key step1 show ?thesis by linarith
qed

text \<open>The column means of the responsibilities nearly maximize the weight part.\<close>

lemma weights_near_max:
  fixes r q :: "nat \<Rightarrow> real"
  assumes r0: "\<forall>k<K. 0 \<le> r k" and r1: "(\<Sum>k<K. r k) = 1"
    and q: "\<forall>k<K. 0 < q k + e" and e: "0 \<le> e"
  shows "1 - ((\<Sum>k<K. q k) + real K * e) \<le> (\<Sum>k<K. r k * (ln (r k + e) - ln (q k + e)))"
proof -
  have tm: "r k - (q k + e) \<le> r k * (ln (r k + e) - ln (q k + e))" if k: "k < K" for k
  proof (cases "r k = 0")
    case True
    have "0 < q k + e" using q k by simp
    then show ?thesis using True by simp
  next
    case False
    then have rpos: "0 < r k" using r0 k by (simp add: less_le)
    then have re: "0 < r k + e" using e by simp
    have qe: "0 < q k + e" using q k by simp
    have "ln (q k + e) - ln (r k + e) \<le> (q k + e) / (r k + e) - 1"
      using qe re by (rule ln_le_ratio)
    then have "r k * (ln (q k + e) - ln (r k + e)) \<le> r k * ((q k + e) / (r k + e) - 1)"
      using rpos by (intro mult_left_mono) simp_all
    also have "\<dots> = (r k / (r k + e)) * (q k + e) - r k"
      by (simp add: algebra_simps)
    also have "\<dots> \<le> 1 * (q k + e) - r k"
    proof -
      have "r k / (r k + e) \<le> 1" using re e by simp
      then have "(r k / (r k + e)) * (q k + e) \<le> 1 * (q k + e)"
        using qe by (intro mult_right_mono) simp_all
      then show ?thesis by simp
    qed
    finally show ?thesis by (simp add: algebra_simps)
  qed
  have "(\<Sum>k<K. r k - (q k + e)) \<le> (\<Sum>k<K. r k * (ln (r k + e) - ln (q k + e)))"
    by (rule sum_mono) (simp add: tm)
  moreover have "(\<Sum>k<K. r k - (q k + e)) = 1 - ((\<Sum>k<K. q k) + real K * e)"
    by (simp add: sum_subtractf sum.distrib r1)
  ultimately show ?thesis by simp
qed

lemma dist_spec_sum:
  "dist_spec X mixture i k = (\<Sum>j<shape1 X. observed X i j * (X ! i ! j - mu mixture ! k ! j) ^ 2)"
proof -
  have "dist_spec X mixture i k =
        (\<Sum>j\<leftarrow>[0..<shape1 X]. if X ! i ! j \<noteq> 0 then (X ! i ! j - mu mixture ! k ! j) ^ 2 else 0)"
    unfolding dist_spec_def observed_dims_def by (simp add: sum_list_map_filter')
  also have "\<dots> = (\<Sum>j<shape1 X. if X ! i ! j \<noteq> 0 then (X ! i ! j - mu mixture ! k ! j) ^ 2 else 0)"
    by (rule sum_list_upt_sum)
  also have "\<dots> = (\<Sum>j<shape1 X. observed X i j * (X ! i ! j - mu mixture ! k ! j) ^ 2)"
    by (rule sum.cong) (simp_all add: observed_def)
  finally show ?thesis .
qed

lemma length_filter_sum_list:
  "real (length (filter P xs)) = (\<Sum>x\<leftarrow>xs. if P x then 1 else 0)"
  by (induction xs) simp_all

lemma count_sum: "real (length (observed_dims X i)) = (\<Sum>j<shape1 X. observed X i j)"
proof -
  have "real (length (observed_dims X i)) = (\<Sum>j\<leftarrow>[0..<shape1 X]. if X ! i ! j \<noteq> 0 then 1 else 0)"
    unfolding observed_dims_def by (rule length_filter_sum_list)
  also have "\<dots> = (\<Sum>j<shape1 X. if X ! i ! j \<noteq> 0 then 1 else 0)"
    by (rule sum_list_upt_sum)
  also have "\<dots> = (\<Sum>j<shape1 X. observed X i j)"
    by (rule sum.cong) (simp_all add: observed_def)
  finally show ?thesis .
qed

lemma observed_cases: "observed X i j = 0 \<or> observed X i j = 1"
  by (simp add: observed_def)

lemma observed_nonneg: "0 \<le> observed X i j"
  by (simp add: observed_def)

lemma weighted_dist_swap:
  "weighted_dist X post mixture k =
     (\<Sum>j<shape1 X. \<Sum>i<shape0 X. (post ! i ! k * observed X i j) * (X ! i ! j - mu mixture ! k ! j) ^ 2)"
proof -
  have "weighted_dist X post mixture k =
        (\<Sum>i<shape0 X. \<Sum>j<shape1 X. (post ! i ! k * observed X i j) * (X ! i ! j - mu mixture ! k ! j) ^ 2)"
    unfolding weighted_dist_def dist_spec_sum
    by (simp add: sum_distrib_left mult.assoc)
  also have "\<dots> = (\<Sum>j<shape1 X. \<Sum>i<shape0 X. (post ! i ! k * observed X i j) * (X ! i ! j - mu mixture ! k ! j) ^ 2)"
    by (rule sum.swap)
  finally show ?thesis .
qed

lemma weighted_count_swap:
  "weighted_count X post k = (\<Sum>j<shape1 X. \<Sum>i<shape0 X. post ! i ! k * observed X i j)"
proof -
  have "weighted_count X post k = (\<Sum>i<shape0 X. \<Sum>j<shape1 X. post ! i ! k * observed X i j)"
    unfolding weighted_count_def count_sum by (simp add: sum_distrib_left)
  also have "\<dots> = (\<Sum>j<shape1 X. \<Sum>i<shape0 X. post ! i ! k * observed X i j)"
    by (rule sum.swap)
  finally show ?thesis .
qed

lemma mu_den_sum:
  assumes "is_matrix (shape0 X) (shape1 X) X" and "j < shape1 X"
  shows "mu_den X post k j = (\<Sum>i<shape0 X. post ! i ! k * observed X i j)"
  by (simp add: mu_den_observed [OF assms] sum_list_upt_sum)

lemma mu_num_sum:
  "mu_num X post k j = (\<Sum>i<shape0 X. (post ! i ! k * observed X i j) * X ! i ! j)"
proof -
  have "mu_num X post k j = (\<Sum>i<shape0 X. post ! i ! k * X ! i ! j * observed X i j)"
    by (simp add: mu_num_observed sum_list_upt_sum)
  also have "\<dots> = (\<Sum>i<shape0 X. (post ! i ! k * observed X i j) * X ! i ! j)"
    by (rule sum.cong) simp_all
  finally show ?thesis .
qed

lemma var_num_weighted_dist:
  assumes X: "is_matrix (shape0 X) (shape1 X) X"
  shows "var_num X post (mu mixture) k = weighted_dist X post mixture k"
proof -
  have "var_num X post (mu mixture) k =
        (\<Sum>i<shape0 X. post ! i ! k *
           (\<Sum>j<shape1 X. ((X ! i ! j - mu mixture ! k ! j) * X2_of X ! i ! j) ^ 2))"
    by (simp add: var_num_def sum_list_upt_sum)
  also have "\<dots> = (\<Sum>i<shape0 X. post ! i ! k * dist_spec X mixture i k)"
  proof (rule sum.cong [OF refl])
    fix i assume "i \<in> {..<shape0 X}"
    then have i: "i < shape0 X" by simp
    have "(\<Sum>j<shape1 X. ((X ! i ! j - mu mixture ! k ! j) * X2_of X ! i ! j) ^ 2) =
          (\<Sum>j<shape1 X. observed X i j * (X ! i ! j - mu mixture ! k ! j) ^ 2)"
      by (rule sum.cong) (simp_all add: X2_of_nth i is_matrix_row [OF X] observed_def)
    then show "post ! i ! k * (\<Sum>j<shape1 X. ((X ! i ! j - mu mixture ! k ! j) * X2_of X ! i ! j) ^ 2)
               = post ! i ! k * dist_spec X mixture i k"
      by (simp add: dist_spec_sum)
  qed
  finally show ?thesis by (simp add: weighted_dist_def)
qed

lemma var_den_weighted_count:
  assumes X: "is_matrix (shape0 X) (shape1 X) X"
  shows "var_den X post k = weighted_count X post k"
proof -
  have "var_den X post k = (\<Sum>j<shape1 X. \<Sum>i<shape0 X. post ! i ! k * X2_of X ! i ! j)"
    by (simp add: var_den_def sum_list_upt_sum)
  also have "\<dots> = (\<Sum>j<shape1 X. \<Sum>i<shape0 X. post ! i ! k * observed X i j)"
    by (intro sum.cong refl) (simp add: X2_of_nth is_matrix_row [OF X] observed_def)
  finally show ?thesis by (simp add: weighted_count_swap)
qed

lemma mstep_fields:
  "mu (mstep X post mixture c) = mstep_mu X post mixture"
  "var (mstep X post mixture c) = mstep_var X post (mstep_mu X post mixture) c"
  "p (mstep X post mixture c) = mstep_p post"
  by (simp_all add: mstep_def Let_def)

lemma mean_step:
  assumes X: "is_matrix (shape0 X) (shape1 X) X" and k: "k < shape1 post" and j: "j < shape1 X"
  shows "(\<Sum>i<shape0 X. (post ! i ! k * observed X i j)
            * (X ! i ! j - mu (mstep X post mixture c) ! k ! j) ^ 2)
         \<le> (\<Sum>i<shape0 X. (post ! i ! k * observed X i j) * (X ! i ! j - mu mixture ! k ! j) ^ 2)"
proof (cases "mu_den X post k j \<ge> 1")
  case True
  let ?w = "\<lambda>i. post ! i ! k * observed X i j"
  have W: "mu_den X post k j = (\<Sum>i<shape0 X. ?w i)"
    using X j by (rule mu_den_sum)
  have pos: "0 < (\<Sum>i<shape0 X. ?w i)" using True W by simp
  have "mu (mstep X post mixture c) ! k ! j =
        (\<Sum>i<shape0 X. ?w i * X ! i ! j) / (\<Sum>i<shape0 X. ?w i)"
    using True by (simp add: mstep_mu_nth [OF k j] mu_num_sum W [symmetric])
  then show ?thesis
    using weighted_mean_min [OF pos, of "\<lambda>i. X ! i ! j" "mu mixture ! k ! j"] by simp
next
  case False
  then have "mu (mstep X post mixture c) ! k ! j = mu mixture ! k ! j"
    by (simp add: mstep_mu_nth [OF k j])
  then show ?thesis by simp
qed

lemma weighted_dist_step:
  assumes X: "is_matrix (shape0 X) (shape1 X) X" and k: "k < shape1 post"
  shows "weighted_dist X post (mstep X post mixture c) k \<le> weighted_dist X post mixture k"
  unfolding weighted_dist_swap
  by (rule sum_mono) (simp add: mean_step [OF X k, of _ mixture c])

lemma weighted_dist_nonneg:
  assumes "\<forall>i<shape0 X. 0 \<le> post ! i ! k"
  shows "0 \<le> weighted_dist X post mixture k"
  unfolding weighted_dist_swap
  by (intro sum_nonneg mult_nonneg_nonneg) (simp_all add: assms observed_nonneg)

lemma weighted_count_nonneg:
  assumes "\<forall>i<shape0 X. 0 \<le> post ! i ! k"
  shows "0 \<le> weighted_count X post k"
  unfolding weighted_count_def
  by (intro sum_nonneg mult_nonneg_nonneg) (simp_all add: assms)

lemma weighted_dist_zero:
  assumes nonneg: "\<forall>i<shape0 X. 0 \<le> post ! i ! k" and zero: "weighted_count X post k = 0"
  shows "weighted_dist X post mixture k = 0"
proof -
  have t0: "0 \<le> post ! i ! k * observed X i j" if "i \<in> {..<shape0 X}" for i j
    using that nonneg by (intro mult_nonneg_nonneg) (simp_all add: observed_nonneg)
  have s0: "0 \<le> (\<Sum>i<shape0 X. post ! i ! k * observed X i j)" for j
    by (rule sum_nonneg) (rule t0)
  have "(\<Sum>j<shape1 X. \<Sum>i<shape0 X. post ! i ! k * observed X i j) = 0"
    using zero by (simp add: weighted_count_swap)
  then have inner: "\<forall>j\<in>{..<shape1 X}. (\<Sum>i<shape0 X. post ! i ! k * observed X i j) = 0"
    using sum_nonneg_eq_0_iff [of "{..<shape1 X}" "\<lambda>j. \<Sum>i<shape0 X. post ! i ! k * observed X i j"] s0
    by simp
  have cell: "post ! i ! k * observed X i j = 0" if j: "j \<in> {..<shape1 X}" and i: "i \<in> {..<shape0 X}" for i j
  proof -
    have "(\<Sum>i<shape0 X. post ! i ! k * observed X i j) = 0" using inner j by blast
    then have "\<forall>i\<in>{..<shape0 X}. post ! i ! k * observed X i j = 0"
      using sum_nonneg_eq_0_iff [of "{..<shape0 X}" "\<lambda>i. post ! i ! k * observed X i j"] t0
      by simp
    then show ?thesis using i by blast
  qed
  show ?thesis
    unfolding weighted_dist_swap
    by (intro sum.neutral ballI) (simp add: cell)
qed

lemma mstep_var_nth:
  assumes X: "is_matrix (shape0 X) (shape1 X) X" and k: "k < shape1 post"
  shows "var (mstep X post mixture c) ! k =
     (if weighted_count X post k = 0 then c
      else if weighted_dist X post (mstep X post mixture c) k / weighted_count X post k \<ge> c
           then weighted_dist X post (mstep X post mixture c) k / weighted_count X post k
           else c)"
proof -
  have "var_num X post (mstep_mu X post mixture) k = weighted_dist X post (mstep X post mixture c) k"
    using var_num_weighted_dist [OF X, of post "mstep X post mixture c" k]
    by (simp add: mstep_fields)
  then show ?thesis
    using k by (simp add: mstep_fields mstep_var_def Let_def var_den_weighted_count [OF X])
qed

lemma variance_step:
  assumes X: "is_matrix (shape0 X) (shape1 X) X" and k: "k < shape1 post"
    and nonneg: "\<forall>i<shape0 X. 0 \<le> post ! i ! k"
    and c: "0 < c" and v: "c \<le> var mixture ! k"
  shows "- (weighted_dist X post mixture k / (2 * var mixture ! k))
           - (weighted_count X post k / 2) * ln (var mixture ! k)
         \<le> - (weighted_dist X post (mstep X post mixture c) k / (2 * var (mstep X post mixture c) ! k))
           - (weighted_count X post k / 2) * ln (var (mstep X post mixture c) ! k)"
proof (cases "weighted_count X post k = 0")
  case True
  then show ?thesis
    by (simp add: weighted_dist_zero [OF nonneg True])
next
  case False
  then have B: "0 < weighted_count X post k"
    using weighted_count_nonneg [OF nonneg] by simp
  have v': "var (mstep X post mixture c) ! k =
     (if weighted_dist X post (mstep X post mixture c) k / weighted_count X post k \<ge> c
      then weighted_dist X post (mstep X post mixture c) k / weighted_count X post k
      else c)"
    using False by (simp add: mstep_var_nth [OF X k])
  show ?thesis
    unfolding v'
    using weighted_dist_nonneg [OF nonneg] weighted_dist_step [OF X k] B c v
    by (rule floored_variance_max)
qed

lemma Q_component:
  "(\<Sum>i<shape0 X. post ! i ! k * f_spec X mixture i k) =
     - (weighted_dist X post mixture k / (2 * var mixture ! k))
     - (weighted_count X post k / 2) * (ln (2 * pi) + ln (var mixture ! k))
     + (\<Sum>i<shape0 X. post ! i ! k) * ln (p mixture ! k + 1 / 10 ^ 16)"
proof -
  define v where "v = var mixture ! k"
  define C where "C = ln (2 * pi) + ln v"
  define E where "E = ln (p mixture ! k + 1 / 10 ^ 16)"
  have "(\<Sum>i<shape0 X. post ! i ! k * f_spec X mixture i k) =
        (\<Sum>i<shape0 X. - ((post ! i ! k * dist_spec X mixture i k) / (2 * v))
            - ((post ! i ! k * real (length (observed_dims X i))) / 2) * C
            + post ! i ! k * E)"
    by (rule sum.cong) (simp_all add: f_spec_def v_def C_def E_def algebra_simps)
  also have "\<dots> = - ((\<Sum>i<shape0 X. post ! i ! k * dist_spec X mixture i k) / (2 * v))
            - ((\<Sum>i<shape0 X. post ! i ! k * real (length (observed_dims X i))) / 2) * C
            + (\<Sum>i<shape0 X. post ! i ! k) * E"
    by (simp only: sum.distrib sum_subtractf sum_negf sum_divide_distrib sum_distrib_right)
  finally show ?thesis
    by (simp only: weighted_dist_def weighted_count_def v_def C_def E_def)
qed

lemma post_nth:
  assumes sh: "shapes_ok X mixture" and i: "i < shape0 X" and k: "k < shape0 (mu mixture)"
  shows "fst (estep X mixture) ! i ! k =
         exp (f_spec X mixture i k - ln (\<Sum>x\<leftarrow>estep_f X mixture ! i. exp x))"
proof -
  have "fst (estep X mixture) ! i ! k =
        exp (estep_f X mixture ! i ! k - logsumexp (estep_f X mixture ! i))"
    using i k by (simp add: post_row)
  then show ?thesis
    using estep_f_nth [OF i shapes_ok_X_row [OF sh i] k]
      logsumexp_eq [OF estep_f_row_ne [OF sh i]]
    by simp
qed

lemma post_matrix:
  assumes sh: "shapes_ok X mixture"
  shows "is_matrix (shape0 X) (shape0 (mu mixture)) (fst (estep X mixture))"
  by (simp add: is_matrix_def fst_estep log_post_of_def list_all_length)

lemma mstep_shapes_ok_estep:
  "shapes_ok X mixture \<Longrightarrow> mstep_shapes_ok X (fst (estep X mixture)) mixture"
  by (simp add: mstep_shapes_ok_def post_matrix)

lemma shapes_ok_mstep:
  assumes "mstep_shapes_ok X post mixture"
  shows "shapes_ok X (mstep X post mixture c)"
proof -
  note sh = mstep_shapes_post [OF assms]
  have ok: "shapes_ok X mixture" using assms by (simp add: mstep_shapes_ok_def)
  have "is_matrix (shape0 (mu mixture)) (shape1 X) (mstep_mu X post mixture)"
    by (simp add: is_matrix_def mstep_mu_def sh list_all_length)
  moreover have "shape0 (mstep_mu X post mixture) = shape0 (mu mixture)"
    by (simp add: shape0_def mstep_mu_def sh)
  moreover have "length (mstep_var X post (mstep_mu X post mixture) c) = shape0 (mu mixture)"
    by (simp add: mstep_var_def sh)
  moreover have "length (mstep_p post) = shape0 (mu mixture)"
    by (simp add: mstep_p_def sh)
  ultimately show ?thesis
    using ok by (simp add: shapes_ok_def mstep_fields)
qed

lemma estep_cost_eq:
  assumes "shapes_ok X mixture"
  shows "snd (estep X mixture) = (\<Sum>i<shape0 X. ln (\<Sum>x\<leftarrow>estep_f X mixture ! i. exp x))"
  by (simp add: estep_cost_sum_list [OF assms] sum_list_upt_sum)

lemma post_nonneg:
  assumes sh: "shapes_ok X mixture" and i: "i < shape0 X" and k: "k < shape0 (mu mixture)"
  shows "0 \<le> fst (estep X mixture) ! i ! k"
  by (simp add: post_nth [OF assms])

lemma mstep_p_nth:
  assumes "mstep_shapes_ok X post mixture" and "k < shape0 (mu mixture)"
  shows "p (mstep X post mixture c) ! k = (\<Sum>i<shape0 X. post ! i ! k) / real (shape0 X)"
  using assms(2)
  by (simp add: mstep_fields mstep_p_def mstep_shapes_post [OF assms(1)] sum_list_upt_sum)

lemma mstep_p_sum:
  assumes "mstep_shapes_ok X post mixture" and "\<forall>i < shape0 X. sum_list (post ! i) = 1"
  shows "(\<Sum>k<shape0 (mu mixture). p (mstep X post mixture c) ! k) = 1"
proof -
  have post: "is_matrix (shape0 X) (shape0 (mu mixture)) post" and n: "0 < shape0 X"
    using assms(1) by (simp_all add: mstep_shapes_ok_def shapes_ok_def)
  have "sum_list (mstep_p post) = 1"
    using post n assms(2) by (rule sum_list_mstep_p)
  moreover have "length (mstep_p post) = shape0 (mu mixture)"
    by (simp add: mstep_p_def mstep_shapes_post [OF assms(1)])
  ultimately show ?thesis
    by (simp add: sum_list_nth_sum mstep_fields)
qed

text \<open>The expected complete-data log-likelihood does not lose more than the smoothing.\<close>

lemma Q_step:
  assumes sh: "mstep_shapes_ok X post mixture"
    and nonneg: "\<forall>i<shape0 X. \<forall>k<shape0 (mu mixture). 0 \<le> post ! i ! k"
    and rows: "\<forall>i < shape0 X. sum_list (post ! i) = 1"
    and c: "0 < c" and floor: "\<forall>k<shape0 (mu mixture). c \<le> var mixture ! k"
    and ppos: "\<forall>k<shape0 (mu mixture). 0 < p mixture ! k + 1 / 10 ^ 16"
  shows "real (shape0 X) * (1 - ((\<Sum>k<shape0 (mu mixture). p mixture ! k) + real (shape0 (mu mixture)) * (1 / 10 ^ 16)))
         \<le> (\<Sum>k<shape0 (mu mixture). \<Sum>i<shape0 X.
               post ! i ! k * (f_spec X (mstep X post mixture c) i k - f_spec X mixture i k))"
proof -
  let ?n = "shape0 X" and ?K = "shape0 (mu mixture)" and ?m' = "mstep X post mixture c"
  let ?e = "1 / 10 ^ 16 :: real"
  have X: "is_matrix ?n (shape1 X) X" and n: "0 < ?n"
    using sh by (simp_all add: mstep_shapes_ok_def shapes_ok_def)
  note shp = mstep_shapes_post [OF sh]
  define r where "r k = p ?m' ! k" for k
  have r_eq: "r k = (\<Sum>i<?n. post ! i ! k) / real ?n" if "k < ?K" for k
    unfolding r_def using sh that by (rule mstep_p_nth)
  have r0: "\<forall>k<?K. 0 \<le> r k"
    using nonneg by (auto simp: r_eq intro!: divide_nonneg_nonneg sum_nonneg)
  have r1: "(\<Sum>k<?K. r k) = 1"
    unfolding r_def using sh rows by (rule mstep_p_sum)
  have col: "(\<Sum>i<?n. post ! i ! k) = real ?n * r k" if "k < ?K" for k
    using n by (simp add: r_eq [OF that])
  have comp: "real ?n * (r k * (ln (r k + ?e) - ln (p mixture ! k + ?e)))
              \<le> (\<Sum>i<?n. post ! i ! k * (f_spec X ?m' i k - f_spec X mixture i k))"
    if k: "k < ?K" for k
  proof -
    have k': "k < shape1 post" using k by (simp add: shp)
    have nn: "\<forall>i<?n. 0 \<le> post ! i ! k" using nonneg k by simp
    have vs: "- (weighted_dist X post mixture k / (2 * var mixture ! k))
                - (weighted_count X post k / 2) * ln (var mixture ! k)
              \<le> - (weighted_dist X post ?m' k / (2 * var ?m' ! k))
                - (weighted_count X post k / 2) * ln (var ?m' ! k)"
      using X k' nn c floor k by (intro variance_step) simp_all
    have "(\<Sum>i<?n. post ! i ! k * (f_spec X ?m' i k - f_spec X mixture i k)) =
          (\<Sum>i<?n. post ! i ! k * f_spec X ?m' i k) - (\<Sum>i<?n. post ! i ! k * f_spec X mixture i k)"
      by (simp add: right_diff_distrib sum_subtractf)
    also have "\<dots> =
        (- (weighted_dist X post ?m' k / (2 * var ?m' ! k))
           - (weighted_count X post k / 2) * ln (var ?m' ! k))
      - (- (weighted_dist X post mixture k / (2 * var mixture ! k))
           - (weighted_count X post k / 2) * ln (var mixture ! k))
      + (real ?n * r k) * (ln (r k + ?e) - ln (p mixture ! k + ?e))"
      unfolding Q_component col [OF k] r_def [symmetric]
      by (simp add: algebra_simps r_def)
    finally show ?thesis using vs by (simp add: mult.assoc)
  qed
  have "1 - ((\<Sum>k<?K. p mixture ! k) + real ?K * ?e)
        \<le> (\<Sum>k<?K. r k * (ln (r k + ?e) - ln (p mixture ! k + ?e)))"
    using r0 r1 ppos by (intro weights_near_max) simp_all
  then have "real ?n * (1 - ((\<Sum>k<?K. p mixture ! k) + real ?K * ?e))
        \<le> real ?n * (\<Sum>k<?K. r k * (ln (r k + ?e) - ln (p mixture ! k + ?e)))"
    by (intro mult_left_mono) simp_all
  also have "\<dots> = (\<Sum>k<?K. real ?n * (r k * (ln (r k + ?e) - ln (p mixture ! k + ?e))))"
    by (simp add: sum_distrib_left)
  also have "\<dots> \<le> (\<Sum>k<?K. \<Sum>i<?n. post ! i ! k * (f_spec X ?m' i k - f_spec X mixture i k))"
    by (rule sum_mono, rule comp, simp)
  finally show ?thesis .
qed

lemma em_step:
  assumes sh: "shapes_ok X mixture" and c: "0 < c"
    and floor: "\<forall>k<shape0 (mu mixture). c \<le> var mixture ! k"
    and ppos: "\<forall>k<shape0 (mu mixture). 0 < p mixture ! k + 1 / 10 ^ 16"
  shows "snd (estep X mixture)
           + real (shape0 X) * (1 - ((\<Sum>k<shape0 (mu mixture). p mixture ! k)
                                      + real (shape0 (mu mixture)) * (1 / 10 ^ 16)))
         \<le> snd (estep X (mstep X (fst (estep X mixture)) mixture c))"
proof -
  let ?n = "shape0 X" and ?K = "shape0 (mu mixture)"
  let ?post = "fst (estep X mixture)"
  let ?m' = "mstep X ?post mixture c"
  have msh: "mstep_shapes_ok X ?post mixture" using sh by (rule mstep_shapes_ok_estep)
  have sh': "shapes_ok X ?m'" using msh by (rule shapes_ok_mstep)
  have K': "shape0 (mu ?m') = ?K"
    by (simp add: mstep_fields shape0_def mstep_mu_def mstep_shapes_post [OF msh])
  have nonneg: "\<forall>i<?n. \<forall>k<?K. 0 \<le> ?post ! i ! k"
    using sh by (simp add: post_nonneg)
  have rows: "\<forall>i<?n. sum_list (?post ! i) = 1"
    using sh by (simp add: post_row_sum)
  have row: "(\<Sum>k<?K. ?post ! i ! k * (f_spec X ?m' i k - f_spec X mixture i k))
             \<le> ln (\<Sum>x\<leftarrow>estep_f X ?m' ! i. exp x) - ln (\<Sum>x\<leftarrow>estep_f X mixture ! i. exp x)"
    if i: "i < ?n" for i
  proof -
    let ?a = "estep_f X mixture ! i" and ?b = "estep_f X ?m' ! i"
    have la: "length ?a = ?K" and lb: "length ?b = ?K"
      using i K' by simp_all
    have ne: "?a \<noteq> []" using sh i by (rule estep_f_row_ne)
    have xr: "length (X ! i) = shape1 X" using sh i by (rule shapes_ok_X_row)
    have "(\<Sum>k<length ?a. exp (?a ! k - ln (\<Sum>x\<leftarrow>?a. exp x)) * (?b ! k - ?a ! k))
          \<le> ln (\<Sum>x\<leftarrow>?b. exp x) - ln (\<Sum>x\<leftarrow>?a. exp x)"
      using lb la ne by (intro lse_diff_lower) simp_all
    moreover have "(\<Sum>k<length ?a. exp (?a ! k - ln (\<Sum>x\<leftarrow>?a. exp x)) * (?b ! k - ?a ! k))
          = (\<Sum>k<?K. ?post ! i ! k * (f_spec X ?m' i k - f_spec X mixture i k))"
      unfolding la
    proof (rule sum.cong [OF refl])
      fix k assume "k \<in> {..<?K}"
      then have k: "k < ?K" by simp
      then have k': "k < shape0 (mu ?m')" by (simp add: K')
      show "exp (?a ! k - ln (\<Sum>x\<leftarrow>?a. exp x)) * (?b ! k - ?a ! k)
            = ?post ! i ! k * (f_spec X ?m' i k - f_spec X mixture i k)"
        by (simp add: post_nth [OF sh i k] estep_f_nth [OF i xr k] estep_f_nth [OF i xr k'])
    qed
    ultimately show ?thesis by simp
  qed
  have "real ?n * (1 - ((\<Sum>k<?K. p mixture ! k) + real ?K * (1 / 10 ^ 16)))
        \<le> (\<Sum>k<?K. \<Sum>i<?n. ?post ! i ! k * (f_spec X ?m' i k - f_spec X mixture i k))"
    using msh nonneg rows c floor ppos by (rule Q_step)
  also have "\<dots> = (\<Sum>i<?n. \<Sum>k<?K. ?post ! i ! k * (f_spec X ?m' i k - f_spec X mixture i k))"
    by (rule sum.swap)
  also have "\<dots> \<le> (\<Sum>i<?n. ln (\<Sum>x\<leftarrow>estep_f X ?m' ! i. exp x) - ln (\<Sum>x\<leftarrow>estep_f X mixture ! i. exp x))"
    by (rule sum_mono, rule row, simp)
  also have "\<dots> = snd (estep X ?m') - snd (estep X mixture)"
    by (simp add: estep_cost_eq [OF sh] estep_cost_eq [OF sh'] sum_subtractf)
  finally show ?thesis by simp
qed

lemma em_step_floor:
  assumes sh: "shapes_ok X mixture"
    and floor: "\<forall>k<shape0 (mu mixture). 1 / 4 \<le> var mixture ! k"
    and ppos: "\<forall>k<shape0 (mu mixture). 0 < p mixture ! k + 1 / 10 ^ 16"
    and psum: "(\<Sum>k<shape0 (mu mixture). p mixture ! k) \<le> 1"
  shows "snd (estep X mixture) - real (shape0 X) * real (shape0 (mu mixture)) / 10 ^ 16
         \<le> snd (estep X (mstep X (fst (estep X mixture)) mixture (1 / 4)))"
proof -
  let ?n = "real (shape0 X)" and ?K = "real (shape0 (mu mixture))"
  let ?s = "\<Sum>k<shape0 (mu mixture). p mixture ! k"
  have "?n * (- (?K * (1 / 10 ^ 16))) \<le> ?n * (1 - (?s + ?K * (1 / 10 ^ 16)))"
    using psum by (intro mult_left_mono) simp_all
  moreover have "snd (estep X mixture) + ?n * (1 - (?s + ?K * (1 / 10 ^ 16)))
        \<le> snd (estep X (mstep X (fst (estep X mixture)) mixture (1 / 4)))"
    using sh _ floor ppos by (rule em_step) simp
  ultimately show ?thesis by (simp add: algebra_simps)
qed

lemma shape0_mu_mstep:
  assumes "mstep_shapes_ok X post mixture"
  shows "shape0 (mu (mstep X post mixture c)) = shape0 (mu mixture)"
  by (simp add: mstep_fields shape0_def mstep_mu_def mstep_shapes_post [OF assms])

lemma mixture_at_shapes:
  assumes "shapes_ok X mixture"
  shows "shapes_ok X (mixture_at X mixture i) \<and> shape0 (mu (mixture_at X mixture i)) = shape0 (mu mixture)"
proof (induction i)
  case 0
  then show ?case using assms by simp
next
  case (Suc i)
  then have "mstep_shapes_ok X (fst (estep X (mixture_at X mixture i))) (mixture_at X mixture i)"
    by (simp add: mstep_shapes_ok_estep)
  then show ?case
    using Suc by (simp add: shapes_ok_mstep shape0_mu_mstep)
qed

lemma mstep_invariants:
  assumes sh: "shapes_ok X mixture"
  defines "m' \<equiv> mstep X (fst (estep X mixture)) mixture (1 / 4)"
  shows "\<forall>k<shape0 (mu m'). 1 / 4 \<le> var m' ! k"
    and "\<forall>k<shape0 (mu m'). 0 < p m' ! k + 1 / 10 ^ 16"
    and "(\<Sum>k<shape0 (mu m'). p m' ! k) \<le> 1"
proof -
  let ?post = "fst (estep X mixture)"
  have msh: "mstep_shapes_ok X ?post mixture" using sh by (rule mstep_shapes_ok_estep)
  have K: "shape0 (mu m') = shape0 (mu mixture)"
    unfolding m'_def using msh by (rule shape0_mu_mstep)
  note shp = mstep_shapes_post [OF msh]
  show "\<forall>k<shape0 (mu m'). 1 / 4 \<le> var m' ! k"
  proof (intro allI impI)
    fix k assume "k < shape0 (mu m')"
    then have k: "k < shape1 ?post" by (simp add: K shp)
    show "1 / 4 \<le> var m' ! k"
      unfolding m'_def mstep_fields using k by (rule mstep_var_ge)
  qed
  show "\<forall>k<shape0 (mu m'). 0 < p m' ! k + 1 / 10 ^ 16"
    unfolding K
  proof (intro allI impI)
    fix k assume k: "k < shape0 (mu mixture)"
    have "0 \<le> (\<Sum>i<shape0 X. ?post ! i ! k) / real (shape0 X)"
      using sh k by (intro divide_nonneg_nonneg sum_nonneg) (simp_all add: post_nonneg)
    then have "0 \<le> p m' ! k"
      unfolding m'_def by (simp add: mstep_p_nth [OF msh k])
    moreover have "(0::real) < 1 / 10 ^ 16" by simp
    ultimately show "0 < p m' ! k + 1 / 10 ^ 16" by (rule add_nonneg_pos)
  qed
  have "(\<Sum>k<shape0 (mu mixture). p m' ! k) = 1"
    unfolding m'_def using msh by (rule mstep_p_sum) (simp add: post_row_sum [OF sh])
  then show "(\<Sum>k<shape0 (mu m'). p m' ! k) \<le> 1" by (simp add: K)
qed

lemma floor_ok_nth:
  assumes sh: "shapes_ok X mixture" and fl: "floor_ok mixture" and lf: "logs_finite mixture"
  shows "\<forall>k<shape0 (mu mixture). 1 / 4 \<le> var mixture ! k"
    and "\<forall>k<shape0 (mu mixture). 0 < p mixture ! k + 1 / 10 ^ 16"
    and "(\<Sum>k<shape0 (mu mixture). p mixture ! k) \<le> 1"
proof -
  have lv: "length (var mixture) = shape0 (mu mixture)" and lp: "length (p mixture) = shape0 (mu mixture)"
    using sh by (simp_all add: shapes_ok_def)
  show "\<forall>k<shape0 (mu mixture). 1 / 4 \<le> var mixture ! k"
    using fl lv by (simp add: floor_ok_def list_all_length)
  show "\<forall>k<shape0 (mu mixture). 0 < p mixture ! k + 1 / 10 ^ 16"
    using lf lp by (simp add: logs_finite_def list_all_length)
  show "(\<Sum>k<shape0 (mu mixture). p mixture ! k) \<le> 1"
    using fl lp by (simp add: floor_ok_def sum_list_nth_sum)
qed

lemma cost_step:
  assumes sh: "shapes_ok X mixture" and lf: "logs_finite mixture" and i: "0 < i \<or> floor_ok mixture"
  shows "cost_at X mixture i - real (shape0 X) * real (shape0 (mu mixture)) / 10 ^ 16
         \<le> cost_at X mixture (Suc i)"
proof -
  let ?m = "mixture_at X mixture i"
  have shi: "shapes_ok X ?m" and K: "shape0 (mu ?m) = shape0 (mu mixture)"
    using mixture_at_shapes [OF sh, of i] by simp_all
  have inv: "(\<forall>k<shape0 (mu ?m). 1 / 4 \<le> var ?m ! k)
           \<and> (\<forall>k<shape0 (mu ?m). 0 < p ?m ! k + 1 / 10 ^ 16)
           \<and> (\<Sum>k<shape0 (mu ?m). p ?m ! k) \<le> 1"
  proof (cases i)
    case 0
    then have "floor_ok mixture" using i by simp
    then show ?thesis using 0 floor_ok_nth [OF sh _ lf] by simp
  next
    case (Suc j)
    have "shapes_ok X (mixture_at X mixture j)"
      using mixture_at_shapes [OF sh, of j] by simp
    then show ?thesis
      using mstep_invariants [of X "mixture_at X mixture j"] by (simp add: Suc)
  qed
  have "snd (estep X ?m) - real (shape0 X) * real (shape0 (mu ?m)) / 10 ^ 16
        \<le> snd (estep X (mstep X (fst (estep X ?m)) ?m (1 / 4)))"
    using shi inv by (intro em_step_floor) simp_all
  then show ?thesis by (simp add: cost_at_def K)
qed

lemma estep_single_cost:
  "snd (estep [[1]] \<lparr>mu = [[1]], var = [v], p = [1]\<rparr>) =
     - (1 / 2) * (ln (2 * pi) + ln v) + ln (1 + 1 / 10 ^ 16)"
  by (simp add: estep_def Let_def estep_f_def estep_norm_def non_null_def rated_def
      log_post_of_def shape0_def shape1_def logsumexp_single)

lemma mstep_low: "mstep X_fix (fst (estep X_fix mixture_low)) mixture_low (1 / 4) = mixture_fix"
  unfolding X_fix_def mixture_low_def mixture_fix_def estep_single_post
  by (simp add: mstep_def mstep_mu_def mstep_p_def mstep_var_def mu_den_def mu_num_def
      var_num_def var_den_def X2_of_def shape0_def shape1_def)

lemma shapes_ok_low: "shapes_ok X_fix mixture_low"
  by (simp add: shapes_ok_def is_matrix_def shape0_def shape1_def X_fix_def mixture_low_def)

lemma logs_finite_low: "logs_finite mixture_low"
  by (simp add: logs_finite_def mixture_low_def)

lemma ln_100_lower: "99 / 100 \<le> ln (100 :: real)"
proof -
  have "ln (1 / 100 :: real) \<le> 1 / 100 - 1" by (rule ln_le_minus_one) simp
  moreover have "ln (1 / 100 :: real) = - ln 100" by (simp add: ln_div)
  ultimately show ?thesis by simp
qed

lemma cost_low_0:
  "cost_at X_fix mixture_low 0 = - (1 / 2) * (ln (2 * pi) - ln 400) + ln (1 + 1 / 10 ^ 16)"
  by (simp add: cost_at_def X_fix_def mixture_low_def estep_single_cost ln_div)

lemma cost_low_1:
  "cost_at X_fix mixture_low 1 = - (1 / 2) * (ln (2 * pi) - ln 4) + ln (1 + 1 / 10 ^ 16)"
proof -
  have "cost_at X_fix mixture_low 1 = snd (estep X_fix mixture_fix)"
    by (simp add: cost_at_def mstep_low)
  then show ?thesis
    by (simp add: X_fix_def mixture_fix_def estep_single_cost ln_div)
qed

lemma half_log_drop:
  fixes c0 c1 E L l400 l4 l100 d :: real
  assumes "c0 = - (1 / 2) * (L - l400) + E" and "c1 = - (1 / 2) * (L - l4) + E"
    and "l400 = l4 + l100" and "99 / 100 \<le> l100" and "d < 1 / 4"
  shows "c1 < c0 - d"
  using assms by argo

lemma ln_400: "ln (400 :: real) = ln 4 + ln 100"
proof -
  have "ln (4 * 100 :: real) = ln 4 + ln 100" by (rule ln_mult_pos) simp_all
  then show ?thesis by simp
qed

lemma floor_ok_demo: "floor_ok mixture_demo"
  by (simp add: floor_ok_def mixture_demo_def)

text \<open>
  C1, as the code has it. From one iteration of the loop to the next the log-likelihood
  loses at most \<open>n * K * 1e-16\<close>, the effect of smoothing the weights by \<open>1e-16\<close>,
  so it stays within the tolerance \<open>1e-8\<close> while \<open>n * K \<le> 10^8\<close>. This holds for
  every pair of consecutive iterations after the first, and for the first pair when the
  mixture given to \<open>run\<close> has no variance below the floor and weights that sum to at
  most one. The mean fallback and the variance floor do not break it: the kept mean is no
  worse than itself, and the floored variance is the best variance above the floor.
\<close>

theorem cost_nondecreasing_above_floor:
  assumes "shapes_ok X mixture" and "logs_finite mixture" and "0 < i \<or> floor_ok mixture"
  shows "cost_at X mixture i - real (shape0 X) * real (shape0 (mu mixture)) / 10 ^ 16
           \<le> cost_at X mixture (Suc i)
       \<and> (shape0 X * shape0 (mu mixture) \<le> 10 ^ 8 \<longrightarrow>
            cost_at X mixture i - 1 / 10 ^ 8 \<le> cost_at X mixture (Suc i))"
proof (intro conjI impI)
  show step: "cost_at X mixture i - real (shape0 X) * real (shape0 (mu mixture)) / 10 ^ 16
           \<le> cost_at X mixture (Suc i)"
    using assms by (rule cost_step)
  assume "shape0 X * shape0 (mu mixture) \<le> 10 ^ 8"
  then have "real (shape0 X * shape0 (mu mixture)) \<le> real (10 ^ 8)"
    by (simp only: of_nat_le_iff)
  then have "real (shape0 X) * real (shape0 (mu mixture)) \<le> 10 ^ 8" by simp
  then have "real (shape0 X) * real (shape0 (mu mixture)) / 10 ^ 16 \<le> 10 ^ 8 / 10 ^ 16"
    by (intro divide_right_mono) simp_all
  also have "\<dots> = (1 / 10 ^ 8 :: real)" by simp
  finally show "cost_at X mixture i - 1 / 10 ^ 8 \<le> cost_at X mixture (Suc i)"
    using step by linarith
qed

theorem cost_nondecreasing_above_floor_witness:
  "shapes_ok X_demo mixture_demo \<and> logs_finite mixture_demo \<and> floor_ok mixture_demo
   \<and> shape0 X_demo * shape0 (mu mixture_demo) \<le> 10 ^ 8
   \<and> cost_at X_demo mixture_demo 0 - 1 / 10 ^ 8 \<le> cost_at X_demo mixture_demo 1
   \<and> cost_at X_fix mixture_low 1 - 1 / 10 ^ 8 \<le> cost_at X_fix mixture_low 2"
proof -
  have small: "shape0 X_demo * shape0 (mu mixture_demo) \<le> 10 ^ 8"
    and small': "shape0 X_fix * shape0 (mu mixture_low) \<le> 10 ^ 8"
    by (simp_all add: shape0_def X_demo_def mixture_demo_def X_fix_def mixture_low_def)
  have a: "cost_at X_demo mixture_demo 0 - 1 / 10 ^ 8 \<le> cost_at X_demo mixture_demo 1"
    using cost_nondecreasing_above_floor [OF shapes_ok_demo logs_finite_demo, of 0]
      floor_ok_demo small by simp
  have b: "cost_at X_fix mixture_low 1 - 1 / 10 ^ 8 \<le> cost_at X_fix mixture_low 2"
    using cost_nondecreasing_above_floor [OF shapes_ok_low logs_finite_low, of 1] small'
    by (simp add: numeral_2_eq_2 del: mixture_at.simps)
  show ?thesis
    using a b small shapes_ok_demo logs_finite_demo floor_ok_demo by blast
qed

text \<open>
  C1 as stated fails on the first pair of iterations: a starting variance of \<open>1/400\<close>
  is raised to the floor by the first M-step, and the second E-step returns a
  log-likelihood lower by \<open>ln 100 / 2\<close>.
\<close>

theorem cost_drops_below_floor:
  "shapes_ok X_fix mixture_low \<and> logs_finite mixture_low
   \<and> cost_at X_fix mixture_low 1 < cost_at X_fix mixture_low 0 - 1 / 10 ^ 8
   \<and> run_loop X_fix mixture_low 0 0 =
       Some (mixture_fix, fst (estep X_fix mixture_fix), cost_at X_fix mixture_low 1, 1)"
proof -
  have drop: "cost_at X_fix mixture_low 1 < cost_at X_fix mixture_low 0 - 1 / 10 ^ 8"
  proof -
    define E :: real where "E = ln (1 + 1 / 10 ^ 16)"
    have e0: "cost_at X_fix mixture_low 0 = - (1 / 2) * (ln (2 * pi) - ln 400) + E"
      and e1: "cost_at X_fix mixture_low 1 = - (1 / 2) * (ln (2 * pi) - ln 4) + E"
      by (simp_all only: cost_low_0 cost_low_1 E_def)
    have t: "(1 / 10 ^ 8 :: real) < 1 / 4" by simp
    show ?thesis using e0 e1 ln_400 ln_100_lower t by (rule half_log_drop)
  qed
  have m1: "mixture_at X_fix mixture_low 1 = mixture_fix" by (simp add: mstep_low)
  have m2: "mixture_at X_fix mixture_low (Suc 1) = mixture_fix"
    unfolding mixture_at.simps m1 by (rule mstep_fix)
  have "\<bar>cost_at X_fix mixture_low 1\<bar> \<ge> 0" by simp
  then have c: "converged_at X_fix mixture_low 1"
    using drop by (simp add: converged_at_def)
  have n: "\<forall>j < 1. \<not> converged_at X_fix mixture_low j"
    by (simp add: converged_at_def)
  have "run_loop X_fix mixture_low 0 0 =
        Some (mixture_at X_fix mixture_low (Suc 1), fst (estep X_fix (mixture_at X_fix mixture_low 1)),
              cost_at X_fix mixture_low 1, 1)"
    using run_loop_reaches [OF n, of 0] run_loop_stop [OF c, of 0] by simp
  then show ?thesis
    using drop shapes_ok_low logs_finite_low by (simp only: m1 m2)
qed

end
